(* ===== verification/Prelude.thy ===== *)
theory Prelude
  imports Main "HOL-Library.Word"
begin

text \<open>
  Shared vocabulary of the development. A C function that can leave the defined behaviour of
  the language, end the process or run forever is a function into \<open>'a res\<close>: \<open>Inr\<close> is a normal
  return, \<open>Inl\<close> names what went wrong. \<open>rbind\<close> sequences two such calls; \<open>rd\<close> and \<open>wr\<close> are
  bounds-checked accesses to a block of memory, indexed by a C integer.
\<close>

type_synonym byte = "8 word"
type_synonym u32 = "32 word"
type_synonym u64 = "64 word"

text \<open>
  What can end a call abnormally: an access outside a block, a read of memory nobody wrote, a
  dereference of \<open>NULL\<close>, a floating-point value converted to an integer type that cannot hold
  it, a signed integer overflow, a call of \<open>exit\<close>, a loop that never ends.
\<close>

datatype error =
    OutOfBounds
  | Uninitialised
  | NullDeref
  | BadConversion
  | SignedOverflow
  | Exit int
  | Diverges

type_synonym 'a res = "error + 'a"

definition rbind :: "'a res \<Rightarrow> ('a \<Rightarrow> 'b res) \<Rightarrow> 'b res" where
  "rbind m f = (case m of Inl e \<Rightarrow> Inl e | Inr x \<Rightarrow> f x)"

definition returns :: "'a res \<Rightarrow> bool" where
  "returns m \<longleftrightarrow> (\<exists>x. m = Inr x)"

named_theorems res_simps \<open>how checked calls compute\<close>

lemma rbind_Inl [simp]: "rbind (Inl e) f = Inl e"
  by (simp add: rbind_def)

lemma rbind_Inr [simp]: "rbind (Inr x) f = f x"
  by (simp add: rbind_def)

lemma rbind_assoc: "rbind (rbind m f) g = rbind m (\<lambda>x. rbind (f x) g)"
  by (cases m) simp_all

lemma rbind_eq_Inr [res_simps]:
  "rbind m f = Inr y \<longleftrightarrow> (\<exists>x. m = Inr x \<and> f x = Inr y)"
  by (cases m) simp_all

lemma rbind_eq_Inl:
  "rbind m f = Inl e \<longleftrightarrow> m = Inl e \<or> (\<exists>x. m = Inr x \<and> f x = Inl e)"
  by (cases m) simp_all

lemma rbind_cong [fundef_cong]:
  "m = m' \<Longrightarrow> (\<And>x. m' = Inr x \<Longrightarrow> f x = f' x) \<Longrightarrow> rbind m f = rbind m' f'"
  by (cases m') simp_all

lemma returns_Inr [simp]: "returns (Inr x)"
  by (simp add: returns_def)

lemma returns_Inl [simp]: "\<not> returns (Inl e)"
  by (simp add: returns_def)

lemma returnsE: "returns m \<Longrightarrow> (\<And>x. m = Inr x \<Longrightarrow> P) \<Longrightarrow> P"
  by (auto simp: returns_def)

text \<open>A block of memory is a list of cells; the index is a C integer, so it may be negative.\<close>

definition rd :: "'a list \<Rightarrow> int \<Rightarrow> 'a res" where
  "rd xs i = (if 0 \<le> i \<and> i < int (length xs) then Inr (xs ! nat i) else Inl OutOfBounds)"

definition wr :: "'a list \<Rightarrow> int \<Rightarrow> 'a \<Rightarrow> 'a list res" where
  "wr xs i x =
     (if 0 \<le> i \<and> i < int (length xs) then Inr (xs[nat i := x]) else Inl OutOfBounds)"

lemma rd_ok [res_simps]: "0 \<le> i \<Longrightarrow> i < int (length xs) \<Longrightarrow> rd xs i = Inr (xs ! nat i)"
  by (simp add: rd_def)

lemma wr_ok [res_simps]: "0 \<le> i \<Longrightarrow> i < int (length xs) \<Longrightarrow> wr xs i x = Inr (xs[nat i := x])"
  by (simp add: wr_def)

lemma rd_eq_Inr: "rd xs i = Inr x \<longleftrightarrow> 0 \<le> i \<and> i < int (length xs) \<and> x = xs ! nat i"
  by (auto simp: rd_def)

lemma wr_eq_Inr:
  "wr xs i x = Inr ys \<longleftrightarrow> 0 \<le> i \<and> i < int (length xs) \<and> ys = xs[nat i := x]"
  by (auto simp: wr_def)

lemma returns_rd [simp]: "returns (rd xs i) \<longleftrightarrow> 0 \<le> i \<and> i < int (length xs)"
  by (simp add: rd_def)

lemma returns_wr [simp]: "returns (wr xs i x) \<longleftrightarrow> 0 \<le> i \<and> i < int (length xs)"
  by (simp add: wr_def)

lemma wr_length: "wr xs i x = Inr ys \<Longrightarrow> length ys = length xs"
  by (auto simp: wr_eq_Inr)

lemma wr_rd_same: "wr xs i x = Inr ys \<Longrightarrow> rd ys i = Inr x"
  by (auto simp: wr_eq_Inr rd_def)

lemma wr_rd_other: "wr xs i x = Inr ys \<Longrightarrow> i \<noteq> j \<Longrightarrow> rd ys j = rd xs j"
  by (auto simp: wr_eq_Inr rd_def nth_list_update)

text \<open>A pointer that may be \<open>NULL\<close> is an option.\<close>

definition deref :: "'a option \<Rightarrow> 'a res" where
  "deref p = (case p of None \<Rightarrow> Inl NullDeref | Some x \<Rightarrow> Inr x)"

lemma deref_simps [simp]: "deref None = Inl NullDeref" "deref (Some x) = Inr x"
  by (simp_all add: deref_def)

definition initialised :: "'a option \<Rightarrow> 'a res" where
  "initialised c = (case c of None \<Rightarrow> Inl Uninitialised | Some x \<Rightarrow> Inr x)"

lemma initialised_simps [simp]:
  "initialised None = Inl Uninitialised" "initialised (Some x) = Inr x"
  by (simp_all add: initialised_def)

text \<open>The largest and smallest C \<open>int\<close>.\<close>

abbreviation INT_MAX :: int where "INT_MAX \<equiv> 2147483647"

abbreviation INT_MIN :: int where "INT_MIN \<equiv> - 2147483648"

text \<open>The outcome of a loop written with \<^theory_text>\<open>partial_function\<close>: no result means it never ends.\<close>

definition ended :: "'a res option \<Rightarrow> 'a res" where
  "ended r = (case r of None \<Rightarrow> Inl Diverges | Some x \<Rightarrow> x)"

lemma ended_simps [simp]: "ended None = Inl Diverges" "ended (Some x) = x"
  by (simp_all add: ended_def)

text \<open>A \<open>for\<close> loop whose body may fail, over the values of its counter.\<close>

fun each :: "('a \<Rightarrow> 's \<Rightarrow> 's res) \<Rightarrow> 'a list \<Rightarrow> 's \<Rightarrow> 's res" where
  "each f [] s = Inr s"
| "each f (x # xs) s = rbind (f x s) (each f xs)"

lemma each_append: "each f (xs @ ys) s = rbind (each f xs s) (each f ys)"
proof (induction xs arbitrary: s)
  case (Cons x xs)
  then show ?case by (cases "f x s") simp_all
qed simp

text \<open>An invariant of the loop, and its value when every step returns.\<close>

lemma each_invariant:
  assumes "I s" "\<And>x s. x \<in> set xs \<Longrightarrow> I s \<Longrightarrow> \<exists>s'. f x s = Inr s' \<and> I s'"
  shows "\<exists>s'. each f xs s = Inr s' \<and> I s'"
  using assms
proof (induction xs arbitrary: s)
  case (Cons x xs)
  then obtain s1 where "f x s = Inr s1" "I s1" by (meson list.set_intros(1))
  with Cons show ?case by simp
qed simp

lemma each_fold:
  assumes "I s" "\<And>x s. x \<in> set xs \<Longrightarrow> I s \<Longrightarrow> f x s = Inr (g x s) \<and> I (g x s)"
  shows "each f xs s = Inr (fold g xs s) \<and> I (fold g xs s)"
  using assms by (induction xs arbitrary: s) simp_all

lemma each_upto:
  assumes "a \<le> b + 1" "I a s"
    and "\<And>k s. a \<le> k \<Longrightarrow> k \<le> b \<Longrightarrow> I k s \<Longrightarrow> \<exists>s'. f k s = Inr s' \<and> I (k + 1) s'"
  shows "\<exists>s'. each f [a..b] s = Inr s' \<and> I (b + 1) s'"
  using assms
proof (induction "nat (b + 1 - a)" arbitrary: a s)
  case 0
  then have "a = b + 1" by simp
  with 0 show ?case by simp
next
  case (Suc n)
  then have ab: "a \<le> b" by simp
  obtain s1 where s1: "f a s = Inr s1" "I (a + 1) s1" using Suc.prems(3)[OF order_refl ab Suc.prems(2)] by blast
  have "\<exists>s'. each f [a + 1..b] s1 = Inr s' \<and> I (b + 1) s'"
    using Suc ab s1(2) by (intro Suc.hyps(1)) auto
  then show ?case using s1(1) ab by (simp add: upto_rec1)
qed

text \<open>The C remainder, which takes the sign of the dividend.\<close>

definition c_rem :: "int \<Rightarrow> int \<Rightarrow> int" where
  "c_rem a b = sgn a * (\<bar>a\<bar> mod \<bar>b\<bar>)"

lemma c_rem_nonneg: "0 \<le> a \<Longrightarrow> 0 < b \<Longrightarrow> c_rem a b = a mod b"
  by (cases "a = 0") (simp_all add: c_rem_def)

text \<open>Words read as integers.\<close>

lemma uint_word_of_int_u64: "0 \<le> t \<Longrightarrow> t < 2 ^ 64 \<Longrightarrow> uint (word_of_int t :: u64) = t"
  by (simp add: uint_word_of_int)

lemma uint_word_of_int_u32: "0 \<le> t \<Longrightarrow> t < 2 ^ 32 \<Longrightarrow> uint (word_of_int t :: u32) = t"
  by (simp add: uint_word_of_int)

end
