(* ===== verification/Double.thy ===== *)
theory Double
  imports Complex_Main Prelude "HOL-Library.Log_Nat"
begin

text \<open>
  The C type \<open>double\<close> as IEEE 754 binary64 with rounding to nearest, ties to even: every
  operation computes the exact rational result and rounds it once, with gradual underflow,
  overflow to infinity, signed zeros and NaN. Everything is executable on concrete values, and
  rounding is monotone and exact on representable numbers, which is what the bounds of the
  other theories rest on.
\<close>

section \<open>Rounding a rational number\<close>

text \<open>The binary exponent of a positive number: \<open>2 powi fl2 x \<le> x < 2 powi (fl2 x + 1)\<close>.\<close>

definition fl2 :: "rat \<Rightarrow> int" where
  "fl2 x = (let (n, d) = quotient_of x; k = bitlen n - bitlen d
            in if 2 powi k \<le> x then k else k - 1)"

text \<open>Nearest integer, ties to the even one.\<close>

definition rne :: "rat \<Rightarrow> int" where
  "rne y = (let f = \<lfloor>y\<rfloor>; r = y - of_int f
            in if r < 1 / 2 then f else if 1 / 2 < r then f + 1
               else if even f then f else f + 1)"

text \<open>53 significant bits, and no finer than the smallest subnormal \<open>2 powi (- 1074)\<close>.\<close>

definition uexp :: "rat \<Rightarrow> int" where
  "uexp x = max (fl2 \<bar>x\<bar> - 52) (- 1074)"

definition rnd :: "rat \<Rightarrow> rat" where
  "rnd x = (if x = 0 then 0 else let u = 2 powi (uexp x) in of_int (rne (x / u)) * u)"

lemma bitlen_nat_bounds:
  fixes n :: int
  assumes "0 < n"
  shows "2 powi (bitlen n - 1) \<le> (of_int n :: rat)" "(of_int n :: rat) < 2 powi (bitlen n)"
proof -
  have "(2::int) ^ nat (bitlen n - 1) \<le> n \<and> n < 2 ^ nat (bitlen n)"
    using bitlen_bounds[OF assms] by simp
  then have "(of_int (2 ^ nat (bitlen n - 1)) :: rat) \<le> of_int n"
    "(of_int n :: rat) < of_int (2 ^ nat (bitlen n))"
    by (simp_all only: of_int_le_iff of_int_less_iff)
  moreover have "0 \<le> bitlen n" "0 \<le> bitlen n - 1"
    using assms bitlen_nonneg[of n] bitlen_eq_zero_iff[of n] by linarith+
  ultimately show "2 powi (bitlen n - 1) \<le> (of_int n :: rat)"
    "(of_int n :: rat) < 2 powi (bitlen n)"
    by (simp_all add: power_int_def)
qed

lemma fl2_bounds:
  assumes "0 < x"
  shows "2 powi (fl2 x) \<le> x" "x < 2 powi (fl2 x + 1)"
proof -
  obtain n d where q: "quotient_of x = (n, d)" by fastforce
  have d: "0 < d" using q by (rule quotient_of_denom_pos)
  have x: "x = of_int n / of_int d" using q by (rule quotient_of_div)
  have n: "0 < n" using assms d x by (simp add: zero_less_divide_iff)
  let ?k = "bitlen n - bitlen d"
  have pd: "(0::rat) < of_int d" using d by simp
  note bn = bitlen_nat_bounds[OF n] and bd = bitlen_nat_bounds[OF d]
  have "x * of_int d = of_int n" using x pd by simp
  have "2 powi (?k - 1) * (of_int d :: rat) \<le> 2 powi (?k - 1) * 2 powi (bitlen d)"
    using bd by (intro mult_left_mono) auto
  also have "\<dots> = 2 powi (bitlen n - 1)" by (simp add: power_int_add[symmetric])
  also have "\<dots> \<le> of_int n" by (rule bn)
  finally have lo: "2 powi (?k - 1) \<le> x" using x pd by (simp add: le_divide_eq)
  have "of_int n < (2 powi (bitlen n) :: rat)" by (rule bn)
  also have "\<dots> = 2 powi (?k + 1) * 2 powi (bitlen d - 1)"
    by (simp add: power_int_add[symmetric])
  also have "\<dots> \<le> 2 powi (?k + 1) * of_int d"
    using bd by (intro mult_left_mono) auto
  finally have hi: "x < 2 powi (?k + 1)" using x pd by (simp add: divide_less_eq)
  show "2 powi (fl2 x) \<le> x" "x < 2 powi (fl2 x + 1)"
    using lo hi by (auto simp: fl2_def q Let_def)
qed

lemma powi_less_iff: "((2::rat) powi a < 2 powi b) \<longleftrightarrow> a < b"
proof
  show "a < b \<Longrightarrow> (2::rat) powi a < 2 powi b" by (rule power_int_strict_increasing) auto
  show "(2::rat) powi a < 2 powi b \<Longrightarrow> a < b"
    using power_int_increasing[of b a "2::rat"] by (cases "a < b") auto
qed

lemma powi_le_iff: "((2::rat) powi a \<le> 2 powi b) \<longleftrightarrow> a \<le> b"
  using powi_less_iff[of b a] by (auto simp: not_less[symmetric])

lemma fl2_eqI:
  assumes "2 powi k \<le> x" "x < 2 powi (k + 1)"
  shows "fl2 x = k"
proof -
  have "(0::rat) < 2 powi k" by simp
  with assms(1) have x: "0 < x" by linarith
  have "2 powi k < (2::rat) powi (fl2 x + 1)" "(2::rat) powi (fl2 x) < 2 powi (k + 1)"
    using assms fl2_bounds[OF x] by linarith+
  then show ?thesis by (simp add: powi_less_iff)
qed

lemma fl2_mono: "0 < x \<Longrightarrow> x \<le> y \<Longrightarrow> fl2 x \<le> fl2 y"
proof -
  assume a: "0 < x" "x \<le> y"
  have "2 powi (fl2 x) < (2::rat) powi (fl2 y + 1)"
    using fl2_bounds[of x] fl2_bounds[of y] a by linarith
  then show ?thesis by (simp add: powi_less_iff)
qed


text \<open>Rounding to the nearest integer is monotone, odd, exact on integers and within a half.\<close>

lemma rne_of_int [simp]: "rne (of_int n) = n"
  by (simp add: rne_def)

lemma rne_error: "\<bar>of_int (rne y) - y\<bar> \<le> 1 / 2"
  using of_int_floor_le[of y] floor_correct[of y] unfolding rne_def Let_def
  by (auto simp: abs_le_iff)

lemma rne_mono: "x \<le> y \<Longrightarrow> rne x \<le> rne y"
proof (cases "\<lfloor>x\<rfloor> = \<lfloor>y\<rfloor>")
  case True
  then show "x \<le> y \<Longrightarrow> rne x \<le> rne y" by (simp add: rne_def Let_def)
next
  case False
  assume "x \<le> y"
  with False have "\<lfloor>x\<rfloor> + 1 \<le> \<lfloor>y\<rfloor>" using floor_mono[of x y] by simp
  moreover have "rne x \<le> \<lfloor>x\<rfloor> + 1" "\<lfloor>y\<rfloor> \<le> rne y" by (simp_all add: rne_def Let_def)
  ultimately show "rne x \<le> rne y" by linarith
qed

lemma rne_between: "of_int m \<le> y \<Longrightarrow> m \<le> rne y" "y \<le> of_int m \<Longrightarrow> rne y \<le> m"
  using rne_mono[of "of_int m" y] rne_mono[of y "of_int m"] by simp_all

lemma rne_minus: "rne (- y) = - rne y"
proof (cases "y \<in> \<int>")
  case True
  then obtain n where "y = of_int n" by (rule Ints_cases)
  then show ?thesis using rne_of_int[of "- n"] by simp
next
  case False
  then have "y \<noteq> of_int \<lfloor>y\<rfloor>" by (metis Ints_of_int)
  then have c: "\<lfloor>- y\<rfloor> = - \<lfloor>y\<rfloor> - 1"
    using ceiling_altdef[of y] by (simp add: ceiling_def)
  show ?thesis by (simp add: rne_def Let_def c)
qed


lemma uexp_minus [simp]: "uexp (- x) = uexp x"
  by (simp add: uexp_def)

lemma rnd_0 [simp]: "rnd 0 = 0"
  by (simp add: rnd_def)

lemma rnd_minus: "rnd (- x) = - rnd x"
  by (simp add: rnd_def Let_def rne_minus)

lemma rnd_representable:
  obtains m e where "rnd x = of_int m * 2 powi e" "\<bar>m\<bar> \<le> 2 ^ 53" "- 1074 \<le> e"
proof (cases "x = 0")
  case True
  then show ?thesis using that[of 0 0] by simp
next
  case False
  let ?u = "uexp x"
  have "\<bar>x\<bar> < 2 powi (fl2 \<bar>x\<bar> + 1)" using fl2_bounds[of "\<bar>x\<bar>"] False by simp
  also have "\<dots> \<le> 2 powi (53 + ?u)" by (simp add: powi_le_iff uexp_def)
  finally have "\<bar>x / 2 powi ?u\<bar> < 2 ^ 53"
    by (simp add: power_int_add divide_less_eq)
  then have "- (2 ^ 53) \<le> x / 2 powi ?u \<and> x / 2 powi ?u \<le> 2 ^ 53" by linarith
  then have b: "of_int (- (2 ^ 53)) \<le> x / 2 powi ?u" "x / 2 powi ?u \<le> of_int (2 ^ 53)"
    by simp_all
  from rne_between(1)[OF b(1)] rne_between(2)[OF b(2)] have "\<bar>rne (x / 2 powi ?u)\<bar> \<le> 2 ^ 53" by linarith
  moreover have "rnd x = of_int (rne (x / 2 powi ?u)) * 2 powi ?u"
    using False by (simp add: rnd_def Let_def)
  moreover have "- 1074 \<le> ?u" by (simp add: uexp_def)
  ultimately show ?thesis using that by blast
qed

lemma rnd_exact:
  assumes x: "x = of_int m * 2 powi e" and m: "\<bar>m\<bar> \<le> 2 ^ 53" and e: "- 1074 \<le> e"
  shows "rnd x = x"
proof (cases "x = 0")
  case False
  let ?u = "uexp x"
  have "\<exists>k. x / 2 powi ?u = of_int k"
  proof (cases "?u \<le> e")
    case True
    have "x / 2 powi ?u = of_int m * 2 powi (e - ?u)"
      by (simp add: x power_int_diff)
    also have "\<dots> = of_int (m * 2 ^ nat (e - ?u))"
      using True by (simp add: power_int_def)
    finally show ?thesis by blast
  next
    case less: False
    have ax: "\<bar>x\<bar> = \<bar>of_int m\<bar> * 2 powi e" by (simp add: x abs_mult)
    have "(of_int \<bar>m\<bar> :: rat) \<le> of_int (2 ^ 53)" using m by (simp only: of_int_le_iff)
    then have am: "\<bar>of_int m :: rat\<bar> \<le> 2 ^ 53" by simp
    have lo: "2 powi (fl2 \<bar>x\<bar>) \<le> \<bar>x\<bar>" using fl2_bounds[of "\<bar>x\<bar>"] False by simp
    have "\<bar>x\<bar> \<le> 2 ^ 53 * 2 powi e" unfolding ax using am by (intro mult_right_mono) auto
    also have "\<dots> = 2 powi (53 + e)" by (simp add: power_int_add)
    finally have "2 powi (fl2 \<bar>x\<bar>) \<le> (2::rat) powi (53 + e)" using lo by linarith
    then have f: "fl2 \<bar>x\<bar> \<le> 53 + e" by (simp add: powi_le_iff)
    have u: "?u = fl2 \<bar>x\<bar> - 52" using less e by (simp add: uexp_def)
    with f less have fe: "fl2 \<bar>x\<bar> = 53 + e" by linarith
    have "2 powi (53 + e) \<le> \<bar>of_int m :: rat\<bar> * 2 powi e"
      using lo[unfolded fe] ax by simp
    then have "2 ^ 53 * 2 powi e \<le> \<bar>of_int m :: rat\<bar> * 2 powi e"
      by (simp add: power_int_add)
    then have "2 ^ 53 \<le> \<bar>of_int m :: rat\<bar>" by simp
    with am have "\<bar>of_int m :: rat\<bar> = 2 ^ 53" by simp
    then have "of_int m = (2 ^ 53 :: rat) \<or> of_int m = (- (2 ^ 53) :: rat)" by linarith
    moreover have "?u = e + 1" using u fe by simp
    ultimately have "x / 2 powi ?u = of_int (2 ^ 52) \<or> x / 2 powi ?u = of_int (- (2 ^ 52))"
      by (auto simp: x power_int_add)
    then show ?thesis by blast
  qed
  then obtain k where k: "x / 2 powi ?u = of_int k" by blast
  then have "x = of_int k * 2 powi ?u" by (simp add: divide_eq_eq)
  with k show ?thesis using False by (simp add: rnd_def Let_def)
qed simp

lemma rnd_rnd [simp]: "rnd (rnd x) = rnd x"
  by (rule rnd_representable[of x]) (blast intro: rnd_exact)

lemma rnd_of_int: "\<bar>n\<bar> \<le> 2 ^ 53 \<Longrightarrow> rnd (of_int n) = of_int n"
  by (rule rnd_exact[of _ n 0]) simp_all

lemma rnd_pos: "0 \<le> x \<Longrightarrow> 0 \<le> rnd x"
  using rne_between(1)[of 0 "x / 2 powi (uexp x)"] by (simp add: rnd_def Let_def)

lemma rnd_le_powi:
  assumes "0 < x" "x \<le> 2 powi k" "uexp x \<le> k"
  shows "rnd x \<le> 2 powi k"
proof -
  let ?u = "uexp x"
  have k: "(2::rat) powi k = of_int (2 ^ nat (k - ?u)) * 2 powi ?u"
    using assms(3) by (simp add: power_int_add[symmetric] power_int_def[of _ "k - ?u", symmetric]
        flip: power_int_of_nat)
  have "x / 2 powi ?u \<le> of_int (2 ^ nat (k - ?u))"
    using assms(2) unfolding k by (simp add: divide_le_eq)
  then have "rne (x / 2 powi ?u) \<le> 2 ^ nat (k - ?u)" by (rule rne_between)
  then have "(of_int (rne (x / 2 powi ?u)) :: rat) \<le> of_int (2 ^ nat (k - ?u))"
    by (simp only: of_int_le_iff)
  then show ?thesis using assms(1) unfolding k
    by (simp only: rnd_def Let_def) (auto intro: mult_right_mono)
qed

lemma powi_le_rnd:
  assumes "0 < x" "2 powi k \<le> x" "uexp x \<le> k"
  shows "2 powi k \<le> rnd x"
proof -
  let ?u = "uexp x"
  have k: "(2::rat) powi k = of_int (2 ^ nat (k - ?u)) * 2 powi ?u"
    using assms(3) by (simp add: power_int_add[symmetric] power_int_def[of _ "k - ?u", symmetric]
        flip: power_int_of_nat)
  have "of_int (2 ^ nat (k - ?u)) \<le> x / 2 powi ?u"
    using assms(2) unfolding k by (simp add: le_divide_eq)
  then have "2 ^ nat (k - ?u) \<le> rne (x / 2 powi ?u)" by (rule rne_between)
  then have "(of_int (2 ^ nat (k - ?u)) :: rat) \<le> of_int (rne (x / 2 powi ?u))"
    by (simp only: of_int_le_iff)
  then show ?thesis using assms(1) unfolding k
    by (simp only: rnd_def Let_def) (auto intro: mult_right_mono)
qed

lemma rnd_mono_pos:
  assumes "0 < x" "x \<le> y"
  shows "rnd x \<le> rnd y"
proof (cases "uexp x = uexp y")
  case True
  have "rne (x / 2 powi (uexp y)) \<le> rne (y / 2 powi (uexp y))"
    using assms by (intro rne_mono divide_right_mono) auto
  then show ?thesis using assms True by (auto simp: rnd_def Let_def intro: mult_right_mono)
next
  case False
  have f: "fl2 x \<le> fl2 y" using assms by (rule fl2_mono)
  with False assms have lt: "fl2 x < fl2 y" "uexp x < fl2 y - 52" "uexp y = fl2 y - 52"
    by (auto simp: uexp_def)
  have "x < 2 powi (fl2 x + 1)" using fl2_bounds[OF assms(1)] by simp
  also have "\<dots> \<le> 2 powi (fl2 y)" using lt by (simp add: powi_le_iff)
  finally have "rnd x \<le> 2 powi (fl2 y)"
    using assms lt by (intro rnd_le_powi) auto
  also have "\<dots> \<le> rnd y"
    using assms lt fl2_bounds[of y] by (intro powi_le_rnd) auto
  finally show ?thesis .
qed

lemma rnd_mono: "x \<le> y \<Longrightarrow> rnd x \<le> rnd y"
proof (cases "0 < x")
  case True
  then show "x \<le> y \<Longrightarrow> rnd x \<le> rnd y" by (rule rnd_mono_pos)
next
  case False
  assume xy: "x \<le> y"
  show "rnd x \<le> rnd y"
  proof (cases "0 \<le> y")
    case True
    have "0 \<le> rnd (- x)" using False by (intro rnd_pos) simp
    with rnd_pos[OF True] show ?thesis by (simp add: rnd_minus)
  next
    case neg: False
    then have "rnd (- y) \<le> rnd (- x)" using xy by (intro rnd_mono_pos) auto
    then show ?thesis by (simp add: rnd_minus)
  qed
qed

lemma rnd_ge: "rnd p = p \<Longrightarrow> p \<le> x \<Longrightarrow> p \<le> rnd x"
  using rnd_mono[of p x] by simp

lemma rnd_le: "rnd p = p \<Longrightarrow> x \<le> p \<Longrightarrow> rnd x \<le> p"
  using rnd_mono[of x p] by simp

lemma rnd_error: "\<bar>rnd x - x\<bar> \<le> 2 powi (uexp x) / 2"
proof (cases "x = 0")
  case False
  let ?u = "(2::rat) powi uexp x"
  have "rnd x - x = (of_int (rne (x / ?u)) - x / ?u) * ?u"
    using False by (simp add: rnd_def Let_def left_diff_distrib)
  then have "\<bar>rnd x - x\<bar> = \<bar>of_int (rne (x / ?u)) - x / ?u\<bar> * ?u"
    by (simp add: abs_mult)
  also have "\<dots> \<le> 1 / 2 * ?u" by (intro mult_right_mono rne_error) auto
  finally show ?thesis by simp
qed simp

text \<open>Below \<open>2 powi k\<close> the absolute error is at most \<open>2 powi (k - 54)\<close>.\<close>

lemma rnd_error_below:
  assumes "\<bar>x\<bar> < 2 powi k" "- 1021 \<le> k"
  shows "\<bar>rnd x - x\<bar> \<le> 2 powi (k - 54)"
proof (cases "x = 0")
  case False
  have "2 powi (fl2 \<bar>x\<bar>) < (2::rat) powi k"
    using fl2_bounds[of "\<bar>x\<bar>"] False assms(1) by simp
  then have "uexp x \<le> k - 53" using assms(2) by (simp add: powi_less_iff uexp_def)
  then have "(2::rat) powi (uexp x) \<le> 2 powi (k - 53)" by (simp add: powi_le_iff)
  also have "\<dots> = 2 powi (k - 54) * 2"
    using power_int_add[of "2::rat" "k - 54" 1] by simp
  finally show ?thesis using rnd_error[of x] by simp
qed simp


section \<open>The type and its operations\<close>

text \<open>
  \<open>Fin r\<close> is the finite number \<open>r\<close>, with \<open>Fin 0\<close> the positive zero. The payload of a NaN and
  the floating-point exception flags are not part of the model: the program reads neither.
\<close>

datatype double = Fin rat | NegZero | PInf | NInf | NaN

fun fin :: "double \<Rightarrow> bool" where
  "fin (Fin r) = True"
| "fin NegZero = True"
| "fin PInf = False"
| "fin NInf = False"
| "fin NaN = False"

fun val :: "double \<Rightarrow> rat" where
  "val (Fin r) = r"
| "val NegZero = 0"
| "val PInf = 0"
| "val NInf = 0"
| "val NaN = 0"

text \<open>The sign bit.\<close>

fun signbit :: "double \<Rightarrow> bool" where
  "signbit (Fin r) = (r < 0)"
| "signbit NegZero = True"
| "signbit PInf = False"
| "signbit NInf = True"
| "signbit NaN = False"

definition inf_d :: "bool \<Rightarrow> double" where
  "inf_d s = (if s then NInf else PInf)"

definition zero_d :: "bool \<Rightarrow> double" where
  "zero_d s = (if s then NegZero else Fin 0)"

text \<open>Rounding of an exact result; \<open>s\<close> is the sign of the result should it round to zero.\<close>

definition to_double :: "bool \<Rightarrow> rat \<Rightarrow> double" where
  "to_double s x =
     (let r = rnd x
      in if r = 0 then zero_d s
         else if 1024 \<le> fl2 \<bar>r\<bar> then inf_d (r < 0)
         else Fin r)"

definition d_of_int :: "int \<Rightarrow> double" where
  "d_of_int n = to_double False (of_int n)"

definition d_of_u64 :: "u64 \<Rightarrow> double" where
  "d_of_u64 w = d_of_int (uint w)"

fun d_neg :: "double \<Rightarrow> double" where
  "d_neg (Fin r) = (if r = 0 then NegZero else Fin (- r))"
| "d_neg NegZero = Fin 0"
| "d_neg PInf = NInf"
| "d_neg NInf = PInf"
| "d_neg NaN = NaN"

definition d_add :: "double \<Rightarrow> double \<Rightarrow> double" where
  "d_add x y =
     (if x = NaN \<or> y = NaN then NaN
      else if fin x \<and> fin y then to_double (signbit x \<and> signbit y) (val x + val y)
      else if fin x then y
      else if fin y then x
      else if x = y then x else NaN)"

definition d_sub :: "double \<Rightarrow> double \<Rightarrow> double" where
  "d_sub x y = d_add x (d_neg y)"

definition d_mul :: "double \<Rightarrow> double \<Rightarrow> double" where
  "d_mul x y =
     (let s = (signbit x \<noteq> signbit y)
      in if x = NaN \<or> y = NaN then NaN
         else if fin x \<and> fin y then to_double s (val x * val y)
         else if (fin x \<and> val x = 0) \<or> (fin y \<and> val y = 0) then NaN
         else inf_d s)"

definition d_div :: "double \<Rightarrow> double \<Rightarrow> double" where
  "d_div x y =
     (let s = (signbit x \<noteq> signbit y)
      in if x = NaN \<or> y = NaN then NaN
         else if \<not> fin x then (if fin y then inf_d s else NaN)
         else if \<not> fin y then zero_d s
         else if val y = 0 then (if val x = 0 then NaN else inf_d s)
         else to_double s (val x / val y))"

definition d_eq :: "double \<Rightarrow> double \<Rightarrow> bool" where
  "d_eq x y = (if fin x \<and> fin y then val x = val y else x = y \<and> x \<noteq> NaN)"

definition d_lt :: "double \<Rightarrow> double \<Rightarrow> bool" where
  "d_lt x y =
     (if x = NaN \<or> y = NaN then False
      else if fin x \<and> fin y then val x < val y
      else x \<noteq> y \<and> (x = NInf \<or> y = PInf))"

definition d_le :: "double \<Rightarrow> double \<Rightarrow> bool" where
  "d_le x y = (d_lt x y \<or> d_eq x y)"

text \<open>
  Conversions to integers drop the fraction. A value whose integral part the type cannot hold,
  an infinity or a NaN is undefined behaviour.
\<close>

definition trunc :: "rat \<Rightarrow> int" where
  "trunc r = (if r < 0 then \<lceil>r\<rceil> else \<lfloor>r\<rfloor>)"

definition d_to_u64 :: "double \<Rightarrow> u64 res" where
  "d_to_u64 x =
     (if fin x \<and> 0 \<le> trunc (val x) \<and> trunc (val x) \<le> 18446744073709551615
      then Inr (word_of_int (trunc (val x))) else Inl BadConversion)"

definition d_to_int :: "double \<Rightarrow> int res" where
  "d_to_int x =
     (if fin x \<and> INT_MIN \<le> trunc (val x) \<and> trunc (val x) \<le> INT_MAX
      then Inr (trunc (val x)) else Inl BadConversion)"

text \<open>The values a \<open>double\<close> object can hold; \<open>dlimit\<close> is where overflow begins.\<close>

definition dlimit :: rat where
  "dlimit = 2 powi 1024"

lemma dlimit_pos [simp]: "0 < dlimit" "\<not> dlimit \<le> 0"
  by (simp_all add: dlimit_def not_le del: power_int_numeral)

definition is_double :: "double \<Rightarrow> bool" where
  "is_double x = (case x of Fin r \<Rightarrow> rnd r = r \<and> \<bar>r\<bar> < dlimit | _ \<Rightarrow> True)"

section \<open>Laws\<close>

named_theorems dbl_simps \<open>comparisons and arithmetic on finite numbers\<close>

lemma fin_cases: "fin x \<Longrightarrow> (\<And>r. x = Fin r \<Longrightarrow> P) \<Longrightarrow> (x = NegZero \<Longrightarrow> P) \<Longrightarrow> P"
  by (cases x) auto

lemma not_NaN_fin [simp]: "fin x \<Longrightarrow> x \<noteq> NaN"
  by auto

lemma zero_d_simps [simp]: "fin (zero_d s)" "val (zero_d s) = 0" "is_double (zero_d s)"
  by (simp_all add: zero_d_def is_double_def)

lemma inf_d_simps [simp]: "\<not> fin (inf_d s)" "inf_d s \<noteq> NaN" "is_double (inf_d s)"
  by (simp_all add: inf_d_def is_double_def)

lemma d_lt_fin [dbl_simps]: "fin x \<Longrightarrow> fin y \<Longrightarrow> d_lt x y \<longleftrightarrow> val x < val y"
  by (simp add: d_lt_def)

lemma d_eq_fin [dbl_simps]: "fin x \<Longrightarrow> fin y \<Longrightarrow> d_eq x y \<longleftrightarrow> val x = val y"
  by (simp add: d_eq_def)

lemma d_le_fin [dbl_simps]: "fin x \<Longrightarrow> fin y \<Longrightarrow> d_le x y \<longleftrightarrow> val x \<le> val y"
  by (auto simp: d_le_def dbl_simps)

lemma d_le_NaN [simp]: "\<not> d_le NaN y" "\<not> d_le x NaN" "\<not> d_lt NaN y" "\<not> d_lt x NaN"
  by (simp_all add: d_le_def d_lt_def d_eq_def)

lemma d_le_Inf [simp]: "x \<noteq> NaN \<Longrightarrow> d_le x PInf" "x \<noteq> NaN \<Longrightarrow> d_le NInf x"
  by (auto simp: d_le_def d_lt_def d_eq_def)

lemma d_le_refl [simp]: "x \<noteq> NaN \<Longrightarrow> d_le x x"
  by (auto simp: d_le_def d_eq_def)

lemma fl2_ge_iff: "0 < x \<Longrightarrow> k \<le> fl2 x \<longleftrightarrow> 2 powi k \<le> x"
proof
  assume x: "0 < x"
  show "2 powi k \<le> x" if "k \<le> fl2 x"
    using fl2_bounds(1)[OF x] that powi_le_iff[of k "fl2 x"] by linarith
  show "k \<le> fl2 x" if "2 powi k \<le> x"
  proof -
    have "2 powi k < (2::rat) powi (fl2 x + 1)" using fl2_bounds(2)[OF x] that by linarith
    then show ?thesis by (simp add: powi_less_iff)
  qed
qed

lemma to_double_cases:
  "to_double s x =
     (if rnd x = 0 then zero_d s
      else if dlimit \<le> \<bar>rnd x\<bar> then inf_d (rnd x < 0) else Fin (rnd x))"
  by (simp add: to_double_def Let_def fl2_ge_iff dlimit_def del: power_int_numeral)

lemma to_double_not_NaN [simp]: "to_double s x \<noteq> NaN"
  by (auto simp: to_double_cases zero_d_def)

lemma is_double_to_double [simp]: "is_double (to_double s x)"
  by (auto simp: to_double_cases is_double_def zero_d_def inf_d_def)

lemma fin_to_double [dbl_simps]: "fin (to_double s x) \<longleftrightarrow> \<bar>rnd x\<bar> < dlimit"
  by (auto simp: to_double_cases not_le)

lemma val_to_double [dbl_simps]: "\<bar>rnd x\<bar> < dlimit \<Longrightarrow> val (to_double s x) = rnd x"
  by (auto simp: to_double_cases not_le)

lemma to_double_exact: "rnd r = r \<Longrightarrow> \<bar>r\<bar> < dlimit \<Longrightarrow> r \<noteq> 0 \<Longrightarrow> to_double s r = Fin r"
  by (simp add: to_double_cases)

lemma to_double_Fin: "is_double (Fin r) \<Longrightarrow> to_double False r = Fin r"
  by (auto simp: to_double_cases is_double_def zero_d_def)

text \<open>Rounding is monotone also where it overflows.\<close>

lemma to_double_mono: "x \<le> y \<Longrightarrow> d_le (to_double s x) (to_double t y)"
proof -
  assume "x \<le> y"
  then have r: "rnd x \<le> rnd y" by (rule rnd_mono)
  show ?thesis
  proof (cases "fin (to_double s x) \<and> fin (to_double t y)")
    case True
    then show ?thesis using r by (simp add: dbl_simps)
  next
    case False
    with r have "to_double s x = NInf \<or> to_double t y = PInf \<or> to_double s x = to_double t y"
      by (auto simp: to_double_cases inf_d_def split: if_splits)
    then show ?thesis
      by (metis d_le_Inf d_le_refl to_double_not_NaN)
  qed
qed

lemma d_le_trans: "d_le x y \<Longrightarrow> d_le y z \<Longrightarrow> d_le x z"
  by (cases x; cases y; cases z) (auto simp: d_le_def d_eq_def d_lt_def)

lemma d_lt_not_le: "d_lt x y \<Longrightarrow> \<not> d_le y x"
  by (cases x; cases y) (auto simp: d_le_def d_eq_def d_lt_def)

lemma fin_d_neg [simp]: "fin (d_neg x) = fin x"
  by (cases x) auto

lemma val_d_neg [simp]: "val (d_neg x) = - val x"
  by (cases x) auto

lemma d_neg_NaN [simp]: "d_neg x = NaN \<longleftrightarrow> x = NaN"
  by (cases x) auto

lemma d_add_fin [dbl_simps]:
  "fin x \<Longrightarrow> fin y \<Longrightarrow> d_add x y = to_double (signbit x \<and> signbit y) (val x + val y)"
  by (auto simp: d_add_def)

lemma d_sub_fin [dbl_simps]:
  "fin x \<Longrightarrow> fin y \<Longrightarrow>
     d_sub x y = to_double (signbit x \<and> signbit (d_neg y)) (val x - val y)"
  by (simp add: d_sub_def dbl_simps)

lemma d_mul_fin [dbl_simps]:
  "fin x \<Longrightarrow> fin y \<Longrightarrow> d_mul x y = to_double (signbit x \<noteq> signbit y) (val x * val y)"
  by (auto simp: d_mul_def)

lemma d_div_fin [dbl_simps]:
  "fin x \<Longrightarrow> fin y \<Longrightarrow> val y \<noteq> 0 \<Longrightarrow>
     d_div x y = to_double (signbit x \<noteq> signbit y) (val x / val y)"
  by (auto simp: d_div_def)

lemma is_double_val: "is_double x \<Longrightarrow> rnd (val x) = val x \<and> \<bar>val x\<bar> < dlimit"
  by (cases x) (auto simp: is_double_def)

lemma small_lt_limit: "\<bar>r\<bar> \<le> 2 powi k \<Longrightarrow> k < 1024 \<Longrightarrow> \<bar>r\<bar> < dlimit"
  using powi_less_iff[of k 1024] unfolding dlimit_def by linarith

text \<open>Integers of at most 53 bits are exact.\<close>

lemma d_of_int_exact: "\<bar>n\<bar> \<le> 2 ^ 53 \<Longrightarrow> d_of_int n = Fin (of_int n)"
proof -
  assume n: "\<bar>n\<bar> \<le> 2 ^ 53"
  then have "(of_int \<bar>n\<bar> :: rat) \<le> of_int (2 ^ 53)" by (simp only: of_int_le_iff)
  then have "\<bar>of_int n :: rat\<bar> < dlimit"
    by (intro small_lt_limit[of _ 53]) simp_all
  with n show ?thesis
    by (auto simp: d_of_int_def to_double_cases rnd_of_int zero_d_def)
qed

lemma val_d_of_int: "\<bar>n\<bar> \<le> 2 ^ 53 \<Longrightarrow> val (d_of_int n) = of_int n"
  by (simp add: d_of_int_exact)

end
