(* ===== verification/Rand48.thy ===== *)
theory Rand48
  imports Double
begin

unbundle bit_operations_syntax

text \<open>
  The random numbers of the C library as POSIX specifies them: \<open>drand48\<close> is the linear
  congruential generator \<open>X' = 0x5DEECE66D * X + 0xB mod 2^48\<close> and returns \<open>X' / 2^48\<close>, and
  \<open>srand48\<close> sets the high 32 bits of the state. The theory proves that the generator has full
  period: from every seed it visits every state, which is why the rejection loops of the
  program end.
\<close>

type_synonym rng = "48 word"

definition rng_step :: "rng \<Rightarrow> rng" where
  "rng_step s = 0x5DEECE66D * s + 0xB"

definition rng_val :: "rng \<Rightarrow> rat" where
  "rng_val s = of_int (uint s) / 281474976710656"

definition drand48 :: "rng \<Rightarrow> double \<times> rng" where
  "drand48 s = (Fin (rng_val (rng_step s)), rng_step s)"

definition srand48 :: "64 word \<Rightarrow> rng" where
  "srand48 seed = push_bit 16 (ucast (ucast seed :: 32 word)) + 0x330E"

section \<open>The values\<close>

lemma uint_rng_bounds: "0 \<le> uint (s :: rng)" "uint (s :: rng) \<le> 281474976710655"
  using uint_bounded[of s] by simp_all

lemma rng_val_bounds: "0 \<le> rng_val s" "rng_val s \<le> 281474976710655 / 281474976710656"
proof -
  have "(0::rat) \<le> of_int (uint s)" by (simp only: of_int_0_le_iff uint_ge_0)
  then show "0 \<le> rng_val s" by (simp add: rng_val_def)
  have "(of_int (uint s) :: rat) \<le> of_int 281474976710655"
    using uint_rng_bounds(2)[of s] by (simp only: of_int_le_iff)
  then show "rng_val s \<le> 281474976710655 / 281474976710656" by (simp add: rng_val_def)
qed

lemma rng_val_less_1: "rng_val s < 1"
  using rng_val_bounds(2)[of s] by simp

lemma dyadic48_exact:
  assumes "\<bar>m\<bar> \<le> 2 ^ 53"
  shows "rnd (of_int m / 281474976710656) = of_int m / 281474976710656"
  by (rule rnd_exact[of _ m "- 48"]) (use assms in \<open>simp_all add: power_int_minus\<close>)

lemma rnd_rng_val [simp]: "rnd (rng_val s) = rng_val s"
  using uint_rng_bounds[of s] unfolding rng_val_def by (intro dyadic48_exact) simp

section \<open>Full period\<close>

fun geo :: "nat \<Rightarrow> nat \<Rightarrow> nat" where
  "geo a 0 = 0"
| "geo a (Suc n) = a * geo a n + 1"

lemma geo_add: "geo a (m + n) = geo a m * a ^ n + geo a n"
  by (induction n) (simp_all add: algebra_simps)

lemma geo_double: "geo a (2 * m) = geo a m * (1 + a ^ m)"
  using geo_add[of a m m] by (simp add: mult_2 algebra_simps flip: mult_2_right)

lemma geo_parity: "odd a \<Longrightarrow> odd (geo a n) \<longleftrightarrow> odd n"
  by (induction n) auto

text \<open>For a multiplier that is 1 modulo 4 the powers of two in \<open>geo a n\<close> are those of \<open>n\<close>.\<close>

lemma geo_dvd:
  assumes a: "a mod 4 = 1"
  shows "2 ^ k dvd geo a n \<Longrightarrow> 2 ^ k dvd n"
proof (induction k arbitrary: n)
  case (Suc k)
  have odd_a: "odd a" using a by presburger
  have "even (geo a n)" using Suc.prems by (rule dvd_trans[rotated]) simp
  then have "even n" using geo_parity[OF odd_a] by blast
  then obtain m where n: "n = 2 * m" by blast
  have "a ^ m mod 4 = 1" using power_mod[of a 4 m] a by simp
  then have "\<exists>h. 1 + a ^ m = 2 * h \<and> odd h" by presburger
  then obtain h where h: "1 + a ^ m = 2 * h" "odd h" by blast
  have "geo a n = 2 * (geo a m * h)"
    unfolding n geo_double h(1) by (simp only: mult.left_commute)
  then have "2 ^ k dvd geo a m * h" using Suc.prems by simp
  then have "2 ^ k dvd geo a m"
    using h(2) by (metis coprime_dvd_mult_left_iff coprime_power_left_iff coprime_left_2_iff_odd)
  then show ?case using Suc.IH by (simp add: n)
qed simp


text \<open>The state after \<open>n\<close> steps, in closed form.\<close>

lemma rng_iterate:
  "(rng_step ^^ n) s = of_nat (0x5DEECE66D ^ n) * s + 0xB * of_nat (geo 0x5DEECE66D n)"
  by (induction n) (simp_all add: rng_step_def algebra_simps)

lemma rng_step_inj: "rng_step s = rng_step t \<Longrightarrow> s = t"
proof -
  assume "rng_step s = rng_step t"
  then have "0x5DEECE66D * s = 0x5DEECE66D * t" by (simp add: rng_step_def)
  then have "(0xDFE05BCB1365 * 0x5DEECE66D) * s = (0xDFE05BCB1365 * 0x5DEECE66D) * t"
    by (simp only: mult.assoc)
  moreover have "(0xDFE05BCB1365 * 0x5DEECE66D :: rng) = 1" by simp
  ultimately show "s = t" by (simp only: mult_1)
qed

lemma rng_funpow_inj: "(rng_step ^^ n) s = (rng_step ^^ n) t \<Longrightarrow> s = t"
  by (induction n) (auto dest: rng_step_inj)

lemma rng_cycle_dvd:
  assumes "(rng_step ^^ n) 0 = 0"
  shows "2 ^ 48 dvd n"
proof -
  have "(of_nat (11 * geo 0x5DEECE66D n) :: rng) = 0"
    using assms unfolding rng_iterate by simp
  then have "2 ^ 48 dvd 11 * geo 0x5DEECE66D n"
    unfolding word_of_nat_eq_0_iff by simp
  moreover have "coprime (2 ^ 48 :: nat) 11" unfolding coprime_power_left_iff by simp
  ultimately have "2 ^ 48 dvd geo 0x5DEECE66D n"
    by (simp only: coprime_dvd_mult_right_iff)
  then show ?thesis by (rule geo_dvd[rotated]) simp
qed

lemma rng_orbit_inj: "inj_on (\<lambda>n. (rng_step ^^ n) 0) {..<2 ^ 48}"
proof (rule linorder_inj_onI')
  fix i j :: nat
  assume ij: "i \<in> {..<2 ^ 48}" "j \<in> {..<2 ^ 48}" "i < j"
  show "(rng_step ^^ i) 0 \<noteq> (rng_step ^^ j) 0"
  proof
    assume "(rng_step ^^ i) 0 = (rng_step ^^ j) 0"
    also have "\<dots> = (rng_step ^^ i) ((rng_step ^^ (j - i)) 0)"
      using ij by (simp add: funpow_add[symmetric, THEN fun_cong, simplified])
    finally have "(rng_step ^^ (j - i)) 0 = 0" using rng_funpow_inj by metis
    then have "2 ^ 48 dvd j - i" by (rule rng_cycle_dvd)
    then show False using ij by (auto dest: dvd_imp_le)
  qed
qed

lemma rng_orbit_all: "\<exists>n < 2 ^ 48. (rng_step ^^ n) 0 = t"
proof -
  let ?f = "\<lambda>n. (rng_step ^^ n) 0"
  have "card (?f ` {..<2 ^ 48}) = 2 ^ 48"
    using card_image[OF rng_orbit_inj] by simp
  then have "card (?f ` {..<2 ^ 48}) = card (UNIV :: rng set)" by (simp add: card_word)
  then have "?f ` {..<2 ^ 48} = UNIV" by (intro card_subset_eq) auto
  then have "t \<in> ?f ` {..<2 ^ 48}" by simp
  then show ?thesis by auto
qed

lemma rng_period: "(rng_step ^^ (2 ^ 48)) 0 = 0"
proof -
  have "surj rng_step" by (rule finite_UNIV_inj_surj) (auto intro: injI dest: rng_step_inj)
  then obtain z where z: "rng_step z = 0" by (metis surjD)
  obtain q where q: "q < 2 ^ 48" "(rng_step ^^ q) 0 = z" using rng_orbit_all by blast
  with z have p: "(rng_step ^^ Suc q) 0 = 0" by simp
  have "2 ^ 48 dvd Suc q" using p by (rule rng_cycle_dvd)
  then have "2 ^ 48 \<le> Suc q" by (rule dvd_imp_le) simp
  with q(1) have "Suc q = 2 ^ 48" by linarith
  with p show ?thesis by simp
qed

theorem rng_full_period: "\<exists>n. (rng_step ^^ n) s = t"
proof -
  obtain i where i: "i < 2 ^ 48" "(rng_step ^^ i) 0 = s" using rng_orbit_all by blast
  obtain j where j: "(rng_step ^^ j) 0 = t" using rng_orbit_all by blast
  have "(rng_step ^^ (2 ^ 48 - i)) s = (rng_step ^^ (2 ^ 48 - i + i)) 0"
    unfolding funpow_add i(2)[symmetric] by simp
  then have "(rng_step ^^ (2 ^ 48 - i)) s = 0" using i(1) rng_period by simp
  then have "(rng_step ^^ (j + (2 ^ 48 - i))) s = t" unfolding funpow_add using j by simp
  then show ?thesis by blast
qed

text \<open>
  Every step flips the lowest bit, so two steps at a time visit every state of the same parity.
\<close>

lemma rng_step_parity: "odd (rng_step s) \<longleftrightarrow> even s"
  by (simp add: rng_step_def)

lemma rng_funpow_parity: "odd ((rng_step ^^ n) s) \<longleftrightarrow> (odd s \<longleftrightarrow> even n)"
  by (induction n) (auto simp: rng_step_parity)

lemma rng_two_step:
  assumes "odd s \<longleftrightarrow> odd t"
  shows "\<exists>n. ((\<lambda>x. rng_step (rng_step x)) ^^ n) s = t"
proof -
  obtain n where n: "(rng_step ^^ n) s = t" using rng_full_period by blast
  with assms rng_funpow_parity[of n s] have "even n" by blast
  then obtain m where m: "n = m * 2" by (metis dvd_def mult.commute)
  have "(\<lambda>x. rng_step (rng_step x)) = rng_step ^^ 2" by (auto simp: numeral_2_eq_2)
  then have "((\<lambda>x. rng_step (rng_step x)) ^^ m) s = t"
    using n by (simp add: m funpow_mult mult.commute)
  then show ?thesis by blast
qed

end
