(* ===== verification/Env.thy ===== *)
theory Env
  imports Rand48
begin

text \<open>
  What the plugin sees of the operating system, and \<open>includes/wf_time.c\<close>. The environment holds
  the state of \<open>drand48\<close>, the answers of the calls whose results the program does not determine
  (the clock, the allocator, the other system calls), each consumed in order, the number of live
  heap blocks and the list of effects, oldest first.
\<close>

record timeval =
  tv_sec :: int
  tv_usec :: int

text \<open>
  Effects visible outside the process: arming a timer (file descriptor, seconds, nanoseconds),
  a packet handed to the nested plugin, a packet written to the receive pipe, a datagram on the
  blink socket, text written to a management client, a closed file descriptor, a removed file, a
  pause in microseconds, a file written, the nested connection opened or closed, the packet thread
  started or cancelled, the receive lock released.
\<close>

datatype event =
    SetTime int int int
  | VdeSend "byte list" int
  | PipeWrite "byte list"
  | BlinkSend string
  | MgmtWrite int string
  | CloseFd int
  | RemoveFile string
  | SleepUs u32
  | WriteFile string string
  | VdeOpen string
  | VdeClose
  | StartThread
  | CancelThread
  | UnlockReceive

record env =
  e_rng :: rng
  e_clock :: "nat \<Rightarrow> timeval"
  e_reads :: nat
  e_malloc :: "nat \<Rightarrow> bool"
  e_mallocs :: nat
  e_live :: int
  e_ret :: "nat \<Rightarrow> int"
  e_calls :: nat
  e_trace :: "event list"

definition emit :: "event \<Rightarrow> env \<Rightarrow> env" where
  "emit ev e = e\<lparr>e_trace := e_trace e @ [ev]\<rparr>"

definition random :: "env \<Rightarrow> double \<times> env" where
  "random e = (let (x, s) = drand48 (e_rng e) in (x, e\<lparr>e_rng := s\<rparr>))"

definition alloc :: "env \<Rightarrow> bool \<times> env" where
  "alloc e =
     (let ok = e_malloc e (e_mallocs e)
      in (ok, e\<lparr>e_mallocs := Suc (e_mallocs e), e_live := (if ok then e_live e + 1 else e_live e)\<rparr>))"

definition release :: "env \<Rightarrow> env" where
  "release e = e\<lparr>e_live := e_live e - 1\<rparr>"

definition syscall :: "env \<Rightarrow> int \<times> env" where
  "syscall e = (e_ret e (e_calls e), e\<lparr>e_calls := Suc (e_calls e)\<rparr>)"

section \<open>Time\<close>

text \<open>The product and the sum are computed in a signed 64-bit \<open>long\<close>.\<close>

definition now_ns :: "env \<Rightarrow> (u64 \<times> env) res" where
  "now_ns e =
     (let v = e_clock e (e_reads e);
          t = tv_sec v * 1000000000 + tv_usec v * 1000
      in if - 9223372036854775808 \<le> t \<and> t \<le> 9223372036854775807
            \<and> \<bar>tv_sec v * 1000000000\<bar> \<le> 9223372036854775807
         then Inr (word_of_int t, e\<lparr>e_reads := Suc (e_reads e)\<rparr>)
         else Inl SignedOverflow)"

definition setTimer :: "int \<Rightarrow> u64 \<Rightarrow> env \<Rightarrow> env res" where
  "setTimer timefd ns_time e =
     (let seconds = uint (ns_time div 1000000000);
          nseconds = uint (ns_time mod 1000000000);
          (ret, e) = syscall (emit (SetTime timefd seconds nseconds) e)
      in if ret = - 1 then Inl (Exit 1) else Inr e)"

definition disarmTimer :: "int \<Rightarrow> env \<Rightarrow> env res" where
  "disarmTimer timefd e =
     (let (ret, e) = syscall (emit (SetTime timefd 0 0) e)
      in if ret = - 1 then Inl (Exit 1) else Inr e)"

text \<open>\<open>MS_TO_NS\<close>, \<open>NS_TO_MS\<close> and \<open>NS_TO_US\<close> at the types they are used at.\<close>

definition MS_TO_NS :: "double \<Rightarrow> double" where
  "MS_TO_NS ms = d_mul ms (Fin 1000000)"

definition NS_TO_MS :: "u64 \<Rightarrow> u64" where
  "NS_TO_MS ns = ns div 1000000"

definition NS_TO_US :: "u64 \<Rightarrow> u64" where
  "NS_TO_US ns = ns div 1000"

section \<open>A working environment\<close>

text \<open>
  The documented behaviour of the calls when nothing fails: the clock returns a time between
  1970 and 2262 with the microseconds below a million, memory is available, and no other system
  call reports an error.
\<close>

definition clock_ok :: "env \<Rightarrow> bool" where
  "clock_ok e \<longleftrightarrow> (\<forall>n. 0 \<le> tv_sec (e_clock e n) \<and> tv_sec (e_clock e n) < 9223372036
     \<and> 0 \<le> tv_usec (e_clock e n) \<and> tv_usec (e_clock e n) < 1000000)"

definition memory_ok :: "env \<Rightarrow> bool" where
  "memory_ok e \<longleftrightarrow> (\<forall>n. e_malloc e n)"

definition calls_ok :: "env \<Rightarrow> bool" where
  "calls_ok e \<longleftrightarrow> (\<forall>n. 0 \<le> e_ret e n)"

definition env_ok :: "env \<Rightarrow> bool" where
  "env_ok e \<longleftrightarrow> clock_ok e \<and> memory_ok e \<and> calls_ok e"

named_theorems env_simps \<open>what the environment calls leave unchanged\<close>

lemma emit_sel [env_simps, simp]:
  "e_rng (emit ev e) = e_rng e" "e_clock (emit ev e) = e_clock e"
  "e_reads (emit ev e) = e_reads e" "e_malloc (emit ev e) = e_malloc e"
  "e_mallocs (emit ev e) = e_mallocs e" "e_live (emit ev e) = e_live e"
  "e_ret (emit ev e) = e_ret e" "e_calls (emit ev e) = e_calls e"
  "e_trace (emit ev e) = e_trace e @ [ev]"
  by (simp_all add: emit_def)

lemma release_sel [env_simps, simp]:
  "e_rng (release e) = e_rng e" "e_clock (release e) = e_clock e"
  "e_reads (release e) = e_reads e" "e_malloc (release e) = e_malloc e"
  "e_mallocs (release e) = e_mallocs e" "e_live (release e) = e_live e - 1"
  "e_ret (release e) = e_ret e" "e_calls (release e) = e_calls e"
  "e_trace (release e) = e_trace e"
  by (simp_all add: release_def)

lemma env_ok_cong:
  "e_clock e' = e_clock e \<Longrightarrow> e_malloc e' = e_malloc e \<Longrightarrow> e_ret e' = e_ret e \<Longrightarrow>
     env_ok e' = env_ok e"
  unfolding env_ok_def clock_ok_def memory_ok_def calls_ok_def by presburger

text \<open>The oracles are never changed: two environments of one execution share them.\<close>

definition same_oracles :: "env \<Rightarrow> env \<Rightarrow> bool" where
  "same_oracles e e' \<longleftrightarrow> e_clock e' = e_clock e \<and> e_malloc e' = e_malloc e \<and> e_ret e' = e_ret e"

lemma same_oracles_refl [simp]: "same_oracles e e"
  by (simp add: same_oracles_def)

lemma same_oracles_trans: "same_oracles e e' \<Longrightarrow> same_oracles e' e'' \<Longrightarrow> same_oracles e e''"
  by (simp add: same_oracles_def)

lemma same_oracles_ok: "same_oracles e e' \<Longrightarrow> env_ok e' = env_ok e"
  using env_ok_cong[of e' e] by (simp add: same_oracles_def)

lemma now_ns_ok:
  assumes "env_ok e"
  shows "\<exists>t. now_ns e = Inr (t, e\<lparr>e_reads := Suc (e_reads e)\<rparr>) \<and> uint t < 2 ^ 63"
proof -
  let ?v = "e_clock e (e_reads e)"
  have v: "0 \<le> tv_sec ?v" "tv_sec ?v < 9223372036" "0 \<le> tv_usec ?v" "tv_usec ?v < 1000000"
    using assms by (simp_all add: env_ok_def clock_ok_def)
  let ?t = "tv_sec ?v * 1000000000 + tv_usec ?v * 1000"
  have t: "0 \<le> ?t" "?t < 2 ^ 63" using v by simp_all
  then have "uint (word_of_int ?t :: u64) = ?t" by (intro uint_word_of_int_u64) simp_all
  moreover have "now_ns e = Inr (word_of_int ?t, e\<lparr>e_reads := Suc (e_reads e)\<rparr>)"
    using t v unfolding now_ns_def Let_def by (subst if_P) auto
  ultimately show ?thesis using t(2) by (intro exI[of _ "word_of_int ?t"]) simp
qed

lemma calls_ok_nonneg: "env_ok e \<Longrightarrow> e_ret e n \<noteq> - 1"
  unfolding env_ok_def calls_ok_def by (metis neg_0_le_iff_le not_one_le_zero)

lemma setTimer_ok:
  assumes "env_ok e"
  shows "setTimer fd t e =
    Inr (snd (syscall (emit (SetTime fd (uint (t div 1000000000)) (uint (t mod 1000000000))) e)))"
  using calls_ok_nonneg[OF assms] by (simp add: setTimer_def syscall_def Let_def)

lemma disarmTimer_ok:
  assumes "env_ok e"
  shows "disarmTimer fd e = Inr (snd (syscall (emit (SetTime fd 0 0) e)))"
  using calls_ok_nonneg[OF assms] by (simp add: disarmTimer_def syscall_def Let_def)

text \<open>Allocation and release change nothing but the allocator's own counters.\<close>

definition quiet :: "env \<Rightarrow> env \<Rightarrow> bool" where
  "quiet e e' \<longleftrightarrow> e_rng e' = e_rng e \<and> e_clock e' = e_clock e \<and> e_reads e' = e_reads e \<and>
     e_malloc e' = e_malloc e \<and> e_ret e' = e_ret e \<and> e_calls e' = e_calls e \<and>
     e_trace e' = e_trace e"

lemma quiet_refl [simp]: "quiet e e"
  by (simp add: quiet_def)

lemma quiet_trans: "quiet e e' \<Longrightarrow> quiet e' e'' \<Longrightarrow> quiet e e''"
  by (simp add: quiet_def)

lemma quietD:
  assumes "quiet e e'"
  shows "e_rng e' = e_rng e" "e_clock e' = e_clock e" "e_reads e' = e_reads e"
    "e_malloc e' = e_malloc e" "e_ret e' = e_ret e" "e_calls e' = e_calls e"
    "e_trace e' = e_trace e"
  using assms by (simp_all add: quiet_def)

lemma quiet_ok: "quiet e e' \<Longrightarrow> env_ok e' = env_ok e"
  by (intro env_ok_cong quietD)

lemma quiet_release [simp]: "quiet e (release e)"
  by (simp add: quiet_def release_def)

lemma quiet_alloc: "alloc e = (ok, e') \<Longrightarrow> quiet e e'"
  by (auto simp: quiet_def alloc_def Let_def)

lemma alloc_ok: "env_ok e \<Longrightarrow> alloc e = (True, e\<lparr>e_mallocs := Suc (e_mallocs e), e_live := e_live e + 1\<rparr>)"
  by (simp add: alloc_def env_ok_def memory_ok_def)

section \<open>An environment in which every call succeeds\<close>

definition idle_env :: env where
  "idle_env = \<lparr>e_rng = 0, e_clock = (\<lambda>_. \<lparr>tv_sec = 1700000000, tv_usec = 0\<rparr>), e_reads = 0,
     e_malloc = (\<lambda>_. True), e_mallocs = 0, e_live = 0, e_ret = (\<lambda>_. 0), e_calls = 0, e_trace = []\<rparr>"

lemma idle_env_ok: "env_ok idle_env"
  by (simp add: idle_env_def env_ok_def clock_ok_def memory_ok_def calls_ok_def)

end
