(* ===== verification/Packet.thy ===== *)
theory Packet
  imports Env
begin

text \<open>
  \<open>struct packet_t\<close> and the constants of \<open>includes/wf_conn.h\<close>, and \<open>includes/wf_conn.c\<close>. The
  \<open>direction\<close> of a packet indexes two-element arrays throughout the program; here it is a
  two-valued type and such an array is a function on it.
\<close>

datatype dir = LEFT_TO_RIGHT | RIGHT_TO_LEFT

lemma dir_update_all [simp]: "f(LEFT_TO_RIGHT := x, RIGHT_TO_LEFT := x) = (\<lambda>_. x)"
proof
  fix d
  show "(f(LEFT_TO_RIGHT := x, RIGHT_TO_LEFT := x)) d = x" by (cases d) simp_all
qed

definition OK_BURST :: byte where
  "OK_BURST = 0"

definition FAULTY_BURST :: byte where
  "FAULTY_BURST = 1"

definition NO_FIFO :: byte where
  "NO_FIFO = 0"

definition FIFO :: byte where
  "FIFO = 1"

definition BLINK_MESSAGE_CONTENT_SIZE :: nat where
  "BLINK_MESSAGE_CONTENT_SIZE = 20"

definition MNGM_MAX_CONN :: int where
  "MNGM_MAX_CONN = 3"

text \<open>\<open>pk_buf\<close> is the block \<open>buf\<close> points to, which has a size of its own.\<close>

record packet =
  pk_buf :: "byte list"
  pk_len :: u64
  pk_flags :: int
  pk_direction :: dir

definition packet_ok :: "packet \<Rightarrow> bool" where
  "packet_ok p \<longleftrightarrow> length (pk_buf p) = unat (pk_len p)"

text \<open>
  Both allocations are checked; a failure returns \<open>NULL\<close>. When the payload cannot be allocated
  the header allocated first stays live.
\<close>

definition packetCopy :: "packet \<Rightarrow> env \<Rightarrow> (packet option \<times> env) res" where
  "packetCopy to_copy e =
     (let (ok, e) = alloc e
      in if \<not> ok then Inr (None, e)
         else let (ok, e) = alloc e
              in if \<not> ok then Inr (None, e)
                 else if length (pk_buf to_copy) < unat (pk_len to_copy) then Inl OutOfBounds
                 else Inr (Some (to_copy\<lparr>pk_buf := take (unat (pk_len to_copy)) (pk_buf to_copy)\<rparr>), e))"

definition packetDestroy :: "packet \<Rightarrow> env \<Rightarrow> env" where
  "packetDestroy to_destroy e = release (release e)"

lemma packet_ok_take: "packet_ok p \<Longrightarrow> take (unat (pk_len p)) (pk_buf p) = pk_buf p"
  by (simp add: packet_ok_def)

lemma packetCopy_ok:
  assumes "packet_ok p" "env_ok e"
  shows "packetCopy p e =
    Inr (Some p, e\<lparr>e_mallocs := e_mallocs e + 2, e_live := e_live e + 2\<rparr>)"
  using assms
  by (simp add: packetCopy_def alloc_def env_ok_def memory_ok_def packet_ok_def Let_def)

end
