(* ===== verification/Queue.thy ===== *)
theory Queue
  imports Packet "HOL-Library.Multiset"
begin

text \<open>
  \<open>includes/wf_queue.c\<close>: the queue of delayed packets, a binary heap in an array that grows by
  \<open>QUEUE_CHUNK\<close> cells, ordered by forward time and then by a counter. Cell 0 holds a sentinel.
  The array is a list of cells; a cell is \<open>None\<close> until it is written.
\<close>

section \<open>State\<close>

record queue_node =
  qn_packet :: "packet option"
  qn_time :: u64
  qn_counter :: u32

type_synonym cells = "queue_node option list"

record queue =
  q_queue :: "cells option"
  q_size :: u32
  q_max_size :: u32
  q_byte_size :: "dir \<Rightarrow> u32"
  q_timerfd :: int
  q_fifoness :: byte
  q_max_forward_time :: u64
  q_counter :: u32

definition QUEUE_CHUNK :: u32 where
  "QUEUE_CHUNK = 100"

definition initQueue :: "byte \<Rightarrow> queue \<Rightarrow> env \<Rightarrow> int \<times> queue \<times> env" where
  "initQueue fifoness q e =
     (let q = q\<lparr>q_fifoness := fifoness\<rparr>;
          (fd, e) = syscall e;
          q = q\<lparr>q_timerfd := fd\<rparr>
      in if fd < 0 then (- 1, q, e)
         else (0, q\<lparr>q_queue := None, q_size := 0, q_max_size := 0,
                    q_byte_size := (q_byte_size q)(LEFT_TO_RIGHT := 0, RIGHT_TO_LEFT := 0),
                    q_max_forward_time := 0, q_counter := 0\<rparr>, e))"

definition closeQueue :: "queue \<Rightarrow> env \<Rightarrow> env" where
  "closeQueue q e =
     emit (CloseFd (q_timerfd q)) (if q_queue q = None then e else release e)"

section \<open>Operations\<close>

text \<open>\<open>realloc\<close> keeps the number of live blocks; the cells it adds are not initialised.\<close>

definition sentinel :: queue_node where
  "sentinel = \<lparr>qn_packet = None, qn_time = 0, qn_counter = 0\<rparr>"

definition resizeQueue :: "int \<Rightarrow> queue \<Rightarrow> env \<Rightarrow> (queue \<times> env) res" where
  "resizeQueue new_size q e =
     (case q_queue q of
        None \<Rightarrow>
          let (ok, e) = alloc e
          in if \<not> ok \<or> new_size < 0 then Inl (Exit 1)
             else let cells = replicate (nat new_size) None
                  in if 0 < new_size then
                       let (ok, e) = alloc e
                       in if \<not> ok then Inl (Exit 1)
                          else Inr (q\<lparr>q_queue := Some (cells[0 := Some sentinel]),
                                      q_max_size := word_of_int new_size\<rparr>, e)
                     else Inr (q\<lparr>q_queue := Some cells, q_max_size := word_of_int new_size\<rparr>, e)
      | Some cells \<Rightarrow>
          let ok = e_malloc e (e_mallocs e); e = e\<lparr>e_mallocs := Suc (e_mallocs e)\<rparr>
          in if \<not> ok \<or> new_size < 0 then Inl (Exit 1)
             else Inr (q\<lparr>q_queue := Some (take (nat new_size) cells
                                        @ replicate (nat new_size - length cells) None),
                         q_max_size := word_of_int new_size\<rparr>, e))"

definition compareNode :: "queue_node \<Rightarrow> queue_node \<Rightarrow> int" where
  "compareNode node1 node2 =
     (if qn_time node1 = qn_time node2 \<and> qn_counter node1 = qn_counter node2 then 0
      else if qn_time node1 < qn_time node2
              \<or> qn_time node1 = qn_time node2 \<and> qn_counter node1 < qn_counter node2 then - 1
      else 1)"

text \<open>
  The loop that places a new node, from cell \<open>k\<close> towards the root. At \<open>k = 0\<close> an iteration
  would change nothing (\<open>k >> 1\<close> is 0 again), so the loop would never end.
\<close>

definition cell :: "cells \<Rightarrow> int \<Rightarrow> queue_node res" where
  "cell cells i = rbind (rd cells i) initialised"

function sift_up :: "queue_node \<Rightarrow> cells \<Rightarrow> int \<Rightarrow> cells res" where
  "sift_up new cells k =
     rbind (cell cells (k div 2)) (\<lambda>parent.
       if compareNode new parent < 0 then
         if k = 0 then Inl Diverges
         else rbind (wr cells k (Some parent)) (\<lambda>cells. sift_up new cells (k div 2))
       else wr cells k (Some new))"
  by pat_completeness auto
termination
  by (relation "measure (\<lambda>(new, cells, k). nat k)")
    (auto simp: cell_def res_simps rd_eq_Inr wr_eq_Inr)

declare sift_up.simps [simp del]

text \<open>
  Removal moves the smaller child up until the former last node \<open>old\<close> fits into the hole
  \<open>k\<close>. As above, a hole at 0 would make the loop repeat itself.
\<close>

definition min_child :: "cells \<Rightarrow> int \<Rightarrow> int \<Rightarrow> int res" where
  "min_child cells n k =
     (let j = 2 * k
      in if j < n then
           rbind (cell cells j) (\<lambda>a. rbind (cell cells (j + 1)) (\<lambda>b.
             Inr (if 0 < compareNode a b then j + 1 else j)))
         else Inr j)"

function sift_down :: "queue_node option \<Rightarrow> cells \<Rightarrow> int \<Rightarrow> int \<Rightarrow> cells res" where
  "sift_down old cells n k =
     (if k \<le> n div 2 then
        rbind (min_child cells n k) (\<lambda>j.
          rbind (initialised old) (\<lambda>o'. rbind (cell cells j) (\<lambda>c.
            if compareNode o' c < 0 then wr cells k old
            else if j \<le> k then Inl Diverges
            else rbind (wr cells k (Some c)) (\<lambda>cells. sift_down old cells n j))))
      else wr cells k old)"
  by pat_completeness auto
termination
  by (relation "measure (\<lambda>(old, cells, n, k). nat (n - k))")
    (auto simp: min_child_def Let_def res_simps split: if_splits)

declare sift_down.simps [simp del]


text \<open>
  The forward time and the state of the counter with which a packet enters the queue: in FIFO
  mode a packet never overtakes one that is already queued.
\<close>

definition fifo_stamp :: "queue \<Rightarrow> u64 \<Rightarrow> queue \<times> u64" where
  "fifo_stamp q forward_time =
     (if q_fifoness q = FIFO then
        if q_max_forward_time q < forward_time
        then (q\<lparr>q_max_forward_time := forward_time, q_counter := 0\<rparr>, forward_time)
        else (q\<lparr>q_counter := q_counter q + 1\<rparr>, q_max_forward_time q)
      else (q, forward_time))"

definition enqueue :: "queue \<Rightarrow> packet \<Rightarrow> u64 \<Rightarrow> env \<Rightarrow> (queue \<times> env) res" where
  "enqueue q packet forward_time e =
     (let (ok, e) = alloc e
      in if \<not> ok then Inl (Exit 1)
         else
           let (q, forward_time) = fifo_stamp q forward_time;
               new = \<lparr>qn_packet = Some packet, qn_time = forward_time, qn_counter = q_counter q\<rparr>
           in rbind (if q_max_size q \<le> q_size q
                     then resizeQueue (sint (q_max_size q + QUEUE_CHUNK)) q e else Inr (q, e))
              (\<lambda>(q, e).
                let d = pk_direction packet;
                    q = q\<lparr>q_size := q_size q + 1,
                          q_byte_size := (q_byte_size q)(d := q_byte_size q d + ucast (pk_len packet))\<rparr>
                in rbind (deref (q_queue q)) (\<lambda>cells.
                   rbind (sift_up new cells (sint (q_size q))) (\<lambda>cells.
                     Inr (q\<lparr>q_queue := Some cells\<rparr>, e)))))"

definition dequeue :: "queue \<Rightarrow> env \<Rightarrow> (packet option \<times> queue \<times> env) res" where
  "dequeue q e =
     (if q_size q = 0 then Inr (None, q, e)
      else
        rbind (deref (q_queue q)) (\<lambda>cells.
        rbind (cell cells 1) (\<lambda>head.
        rbind (deref (qn_packet head)) (\<lambda>out_packet.
          let d = pk_direction out_packet;
              q = q\<lparr>q_size := q_size q - 1,
                    q_byte_size := (q_byte_size q)(d := q_byte_size q d - ucast (pk_len out_packet))\<rparr>;
              e = release e
          in rbind (rd cells (uint (q_size q + 1))) (\<lambda>old.
             rbind (sift_down old cells (uint (q_size q)) 1) (\<lambda>cells.
               Inr (Some out_packet, q\<lparr>q_queue := Some cells\<rparr>, e)))))))"

definition nextQueueTime :: "queue \<Rightarrow> u64 res" where
  "nextQueueTime q =
     rbind (deref (q_queue q)) (\<lambda>cells. rbind (cell cells 1) (\<lambda>head. Inr (qn_time head)))"

text \<open>The difference is computed modulo \<open>2 ^ 64\<close> and read as a signed number.\<close>

definition setQueueTimer :: "queue \<Rightarrow> env \<Rightarrow> env res" where
  "setQueueTimer q e =
     rbind (nextQueueTime q) (\<lambda>next.
     rbind (now_ns e) (\<lambda>(now, e).
       let next_time_step = next - now;
           next_time_step = (if sint next_time_step \<le> 0 then 1 else next_time_step)
       in setTimer (q_timerfd q) next_time_step e))"

end
