(* ===== verification/Queue_Heap.thy ===== *)
theory Queue_Heap
  imports Queue
begin

text \<open>
  The two loops of the queue restore the heap order. Each works on an array with one hole: the
  lemmas state what holds around the hole, and that the loop ends with the hole filled, the
  array ordered and the other nodes still there.
\<close>

section \<open>The order of the nodes\<close>

datatype qkey = QKey (ktime: u64) (kcount: u32)

instantiation qkey :: linorder
begin

definition less_qkey :: "qkey \<Rightarrow> qkey \<Rightarrow> bool" where
  "less_qkey a b \<longleftrightarrow> ktime a < ktime b \<or> ktime a = ktime b \<and> kcount a < kcount b"

definition less_eq_qkey :: "qkey \<Rightarrow> qkey \<Rightarrow> bool" where
  "less_eq_qkey a b \<longleftrightarrow> ktime a < ktime b \<or> ktime a = ktime b \<and> kcount a \<le> kcount b"

instance
  by standard (auto simp: less_qkey_def less_eq_qkey_def intro: qkey.expand)

end

definition nkey :: "queue_node \<Rightarrow> qkey" where
  "nkey n = QKey (qn_time n) (qn_counter n)"

lemma compareNode_neg: "compareNode a b < 0 \<longleftrightarrow> nkey a < nkey b"
  by (auto simp: compareNode_def nkey_def less_qkey_def)

lemma compareNode_pos: "0 < compareNode a b \<longleftrightarrow> nkey b < nkey a"
  by (auto simp: compareNode_def nkey_def less_qkey_def)

lemma compareNode_zero: "compareNode a b = 0 \<longleftrightarrow> nkey a = nkey b"
  by (auto simp: compareNode_def nkey_def)

lemma sentinel_least: "nkey sentinel \<le> x"
  by (cases x) (auto simp: nkey_def sentinel_def less_eq_qkey_def word_neq_0_conv[symmetric])

section \<open>Heap-ordered arrays\<close>

definition node_at :: "cells \<Rightarrow> nat \<Rightarrow> queue_node" where
  "node_at cells i = the (cells ! i)"

abbreviation key_at :: "cells \<Rightarrow> nat \<Rightarrow> qkey" where
  "key_at cells i \<equiv> nkey (node_at cells i)"

definition nodes :: "cells \<Rightarrow> nat set \<Rightarrow> queue_node multiset" where
  "nodes cells I = image_mset (node_at cells) (mset_set I)"

definition filled :: "cells \<Rightarrow> nat set \<Rightarrow> bool" where
  "filled cells I \<longleftrightarrow> (\<forall>i\<in>I. i < length cells \<and> cells ! i \<noteq> None)"

definition heap_cells :: "cells \<Rightarrow> nat \<Rightarrow> bool" where
  "heap_cells cells n \<longleftrightarrow>
     n < length cells \<and> cells ! 0 = Some sentinel \<and> filled cells {1..n} \<and>
     (\<forall>i\<in>{2..n}. key_at cells (i div 2) \<le> key_at cells i)"

lemma cell_filled: "i < length cells \<Longrightarrow> cells ! i \<noteq> None \<Longrightarrow> cell cells (int i) = Inr (node_at cells i)"
  by (auto simp: cell_def rd_def node_at_def)

lemma node_at_update [simp]:
  "i < length cells \<Longrightarrow> node_at (cells[i := Some x]) j = (if j = i then x else node_at cells j)"
  by (auto simp: node_at_def nth_list_update)

lemma filled_update:
  "k < length cells \<Longrightarrow> filled (cells[k := Some x]) I \<longleftrightarrow> filled cells (I - {k})"
  by (auto simp: filled_def nth_list_update)

lemma filled_mono: "filled cells J \<Longrightarrow> I \<subseteq> J \<Longrightarrow> filled cells I"
  by (auto simp: filled_def)

lemma nodes_insert: "finite I \<Longrightarrow> i \<in> I \<Longrightarrow> nodes cells I = add_mset (node_at cells i) (nodes cells (I - {i}))"
  by (simp add: nodes_def mset_set.remove)

lemma nodes_update_other:
  "k < length cells \<Longrightarrow> finite I \<Longrightarrow> k \<notin> I \<Longrightarrow> nodes (cells[k := x]) I = nodes cells I"
  by (auto simp: nodes_def node_at_def nth_list_update intro!: image_mset_cong)

lemma nodes_fill:
  "k < length cells \<Longrightarrow> finite I \<Longrightarrow> k \<in> I \<Longrightarrow>
     nodes (cells[k := Some x]) I = add_mset x (nodes cells (I - {k}))"
  by (simp add: nodes_insert[of I k] nodes_update_other)

text \<open>Moving the node of cell \<open>p\<close> into the hole \<open>k\<close> moves the hole to \<open>p\<close>.\<close>

lemma nodes_move:
  assumes "k < length cells" "finite I" "k \<in> I" "p \<in> I" "p \<noteq> k"
  shows "nodes (cells[k := Some (node_at cells p)]) (I - {p}) = nodes cells (I - {k})"
proof -
  have "I - {p} - {k} = I - {k} - {p}" by blast
  then show ?thesis
    using assms nodes_insert[of "I - {k}" p cells] by (simp add: nodes_fill)
qed

section \<open>Insertion\<close>

definition up_hole :: "queue_node \<Rightarrow> cells \<Rightarrow> nat \<Rightarrow> nat \<Rightarrow> bool" where
  "up_hole new cells n k \<longleftrightarrow>
     1 \<le> k \<and> k \<le> n \<and> n < length cells \<and> cells ! 0 = Some sentinel \<and> filled cells ({1..n} - {k}) \<and>
     (\<forall>i\<in>{2..n}. i \<noteq> k \<longrightarrow> i div 2 \<noteq> k \<longrightarrow> key_at cells (i div 2) \<le> key_at cells i) \<and>
     (\<forall>i\<in>{2..n}. i div 2 = k \<longrightarrow> nkey new \<le> key_at cells i) \<and>
     (2 \<le> k \<longrightarrow> (\<forall>i\<in>{2..n}. i div 2 = k \<longrightarrow> key_at cells (k div 2) \<le> key_at cells i))"

lemma up_hole_move:
  assumes h: "up_hole new cells n k" and k: "2 \<le> k" and less: "nkey new < key_at cells (k div 2)"
  shows "up_hole new (cells[k := Some (node_at cells (k div 2))]) n (k div 2)"
proof -
  have k2: "1 \<le> k div 2" "k div 2 < k" using k by auto
  have len: "k < length cells" using h by (simp add: up_hole_def)
  have par: "key_at cells (k div 2 div 2) \<le> key_at cells (k div 2)" if "2 \<le> k div 2"
    using h k2 that by (auto simp: up_hole_def)
  have "filled cells ({1..n} - {k div 2} - {k})"
    using h by (auto simp: up_hole_def filled_def)
  then show ?thesis
    using h k k2 len less par
    unfolding up_hole_def
    by (auto simp: filled_update nth_list_update intro: order_trans less_imp_le)
qed

lemma up_hole_fill:
  assumes h: "up_hole new cells n k"
    and ge: "2 \<le> k \<Longrightarrow> key_at cells (k div 2) \<le> nkey new"
  shows "heap_cells (cells[k := Some new]) n"
  using assms unfolding up_hole_def heap_cells_def
  by (auto simp: filled_update nth_list_update)

lemma sift_up_correct:
  assumes "up_hole new cells n k"
  shows "\<exists>cells'. sift_up new cells (int k) = Inr cells' \<and> heap_cells cells' n \<and>
    length cells' = length cells \<and> nodes cells' {1..n} = add_mset new (nodes cells ({1..n} - {k}))"
  using assms
proof (induction k arbitrary: cells rule: less_induct)
  case (less k)
  note h = less.prems
  have k: "1 \<le> k" "k \<le> n" "n < length cells" using h by (auto simp: up_hole_def)
  have div: "int k div 2 = int (k div 2)" by simp
  show ?case
  proof (cases "2 \<le> k \<and> nkey new < key_at cells (k div 2)")
    case True
    let ?c = "cells[k := Some (node_at cells (k div 2))]"
    have k2: "1 \<le> k div 2" "k div 2 < k" using True by auto
    have "cells ! (k div 2) \<noteq> None" using h k k2 by (auto simp: up_hole_def filled_def)
    then have "sift_up new cells (int k) = sift_up new ?c (int (k div 2))"
      using True k k2(1)
      by (subst sift_up.simps) (auto simp: div cell_filled compareNode_neg wr_ok)
    moreover have "nodes ?c ({1..n} - {k div 2}) = nodes cells ({1..n} - {k})"
      using k k2 by (intro nodes_move) auto
    moreover have "up_hole new ?c n (k div 2)" using up_hole_move[OF h] True by blast
    ultimately show ?thesis using less.IH[OF k2(2), of ?c] by simp
  next
    case False
    have par: "cell cells (int (k div 2)) = Inr (node_at cells (k div 2))"
    proof (intro cell_filled)
      show "k div 2 < length cells" using k by linarith
      have "k div 2 = 0 \<or> k div 2 \<in> {1..n} - {k}" using k by auto
      then show "cells ! (k div 2) \<noteq> None" using h by (auto simp: up_hole_def filled_def)
    qed
    have "\<not> nkey new < key_at cells (k div 2)"
    proof (cases "2 \<le> k")
      case True
      with False show ?thesis by simp
    next
      case False
      then have "k div 2 = 0" by simp
      then show ?thesis using h sentinel_least by (simp add: up_hole_def node_at_def not_less)
    qed
    then have "sift_up new cells (int k) = Inr (cells[k := Some new])" and
      "2 \<le> k \<Longrightarrow> key_at cells (k div 2) \<le> nkey new"
      using k by (simp_all add: sift_up.simps[of new cells "int k"] div par compareNode_neg wr_ok)
    with h k show ?thesis by (auto intro: up_hole_fill simp: nodes_fill)
  qed
qed


section \<open>Removal\<close>

text \<open>While the hole moves down, the node taken from the end is not below the hole's parent.\<close>

definition down_hole :: "queue_node \<Rightarrow> cells \<Rightarrow> nat \<Rightarrow> nat \<Rightarrow> bool" where
  "down_hole new cells n k \<longleftrightarrow>
     1 \<le> k \<and> k \<le> n \<and> n < length cells \<and> cells ! 0 = Some sentinel \<and> filled cells ({1..n} - {k}) \<and>
     (\<forall>i\<in>{2..n}. i \<noteq> k \<longrightarrow> i div 2 \<noteq> k \<longrightarrow> key_at cells (i div 2) \<le> key_at cells i) \<and>
     (2 \<le> k \<longrightarrow> key_at cells (k div 2) \<le> nkey new) \<and>
     (2 \<le> k \<longrightarrow> (\<forall>i\<in>{2..n}. i div 2 = k \<longrightarrow> key_at cells (k div 2) \<le> key_at cells i))"

text \<open>The child the loop compares with is the smaller one.\<close>

lemma child_cases: "i div 2 = (k::nat) \<longleftrightarrow> i = 2 * k \<or> i = 2 * k + 1"
  by auto

lemma min_child_correct:
  assumes f: "filled cells ({1..n} - {k})" and k: "1 \<le> k" "2 * k \<le> n"
  obtains j where "min_child cells (int n) (int k) = Inr (int j)" "j div 2 = k" "j \<le> n" "k < j"
    "\<And>i. i \<le> n \<Longrightarrow> i div 2 = k \<Longrightarrow> key_at cells j \<le> key_at cells i"
proof (cases "2 * k < n")
  case True
  have "cell cells (int (2 * k)) = Inr (node_at cells (2 * k))"
    "cell cells (int (2 * k + 1)) = Inr (node_at cells (2 * k + 1))"
    using f k True by (intro cell_filled; force simp: filled_def)+
  then have m: "min_child cells (int n) (int k) =
      Inr (if key_at cells (2 * k + 1) < key_at cells (2 * k) then int (2 * k + 1) else int (2 * k))"
    using True by (simp add: min_child_def Let_def compareNode_pos add.commute)
  show ?thesis
    by (rule that[of "if key_at cells (2 * k + 1) < key_at cells (2 * k) then 2 * k + 1 else 2 * k"])
      (use k True in \<open>auto simp: m child_cases\<close>)
next
  case False
  then have "n = 2 * k" using k by simp
  then show ?thesis
    using k by (intro that[of "2 * k"]) (auto simp: min_child_def Let_def child_cases)
qed

lemma down_hole_move:
  assumes h: "down_hole new cells n k" and j: "j div 2 = k" "j \<le> n" "k < j"
    and min: "\<And>i. i \<le> n \<Longrightarrow> i div 2 = k \<Longrightarrow> key_at cells j \<le> key_at cells i"
    and ge: "key_at cells j \<le> nkey new"
  shows "down_hole new (cells[k := Some (node_at cells j)]) n j"
proof -
  have len: "k < length cells" and k1: "1 \<le> k" using h by (auto simp: down_hole_def)
  have "filled cells ({1..n} - {j} - {k})" using h by (auto simp: down_hole_def filled_def)
  moreover have "key_at cells j \<le> key_at cells i" if "i \<in> {2..n}" "i div 2 = j" for i
  proof -
    have "i \<noteq> k" "i div 2 \<noteq> k" using that j by auto
    then have "key_at cells (i div 2) \<le> key_at cells i"
      using h that(1) unfolding down_hole_def by blast
    then show ?thesis using that(2) by simp
  qed
  ultimately show ?thesis
    using h j len k1 min ge unfolding down_hole_def
    by (auto simp: filled_update nth_list_update)
qed

lemma down_hole_fill:
  assumes h: "down_hole new cells n k"
    and ge: "\<And>i. i \<le> n \<Longrightarrow> i div 2 = k \<Longrightarrow> nkey new \<le> key_at cells i"
  shows "heap_cells (cells[k := Some new]) n"
  using assms unfolding down_hole_def heap_cells_def
  by (auto simp: filled_update nth_list_update)

lemma sift_down_correct:
  assumes "down_hole new cells n k"
  shows "\<exists>cells'. sift_down (Some new) cells (int n) (int k) = Inr cells' \<and> heap_cells cells' n \<and>
    length cells' = length cells \<and> nodes cells' {1..n} = add_mset new (nodes cells ({1..n} - {k}))"
  using assms
proof (induction "n - k" arbitrary: cells k rule: less_induct)
  case less
  note h = less.prems
  have k: "1 \<le> k" "k \<le> n" "n < length cells" "filled cells ({1..n} - {k})"
    using h by (auto simp: down_hole_def)
  have cond: "int k \<le> int n div 2 \<longleftrightarrow> 2 * k \<le> n" by auto
  have finish: ?case if "sift_down (Some new) cells (int n) (int k) = Inr (cells[k := Some new])"
    "\<And>i. i \<le> n \<Longrightarrow> i div 2 = k \<Longrightarrow> nkey new \<le> key_at cells i"
    using that h k by (auto intro: down_hole_fill simp: nodes_fill)
  show ?case
  proof (cases "2 * k \<le> n")
    case False
    then show ?thesis
      by (intro finish) (use k in \<open>auto simp: sift_down.simps[of _ _ _ "int k"] cond wr_ok\<close>)
  next
    case True
    obtain j where j: "min_child cells (int n) (int k) = Inr (int j)" "j div 2 = k" "j \<le> n" "k < j"
      and min: "\<And>i. i \<le> n \<Longrightarrow> i div 2 = k \<Longrightarrow> key_at cells j \<le> key_at cells i"
      using min_child_correct[OF k(4,1) True] by blast
    have cj: "cell cells (int j) = Inr (node_at cells j)"
      using k j by (intro cell_filled) (auto simp: filled_def)
    show ?thesis
    proof (cases "nkey new < key_at cells j")
      case True
      show ?thesis
        using True min k j \<open>2 * k \<le> n\<close> cj
        by (intro finish)
          (auto simp: sift_down.simps[of _ _ _ "int k"] cond wr_ok compareNode_neg
            intro: order_trans[OF less_imp_le])
    next
      case False
      let ?c = "cells[k := Some (node_at cells j)]"
      have "sift_down (Some new) cells (int n) (int k) = sift_down (Some new) ?c (int n) (int j)"
        using False k j \<open>2 * k \<le> n\<close> cj
        by (subst sift_down.simps) (simp add: cond wr_ok compareNode_neg)
      moreover have "nodes ?c ({1..n} - {j}) = nodes cells ({1..n} - {k})"
        using k j by (intro nodes_move) auto
      moreover have "down_hole new ?c n j"
        using False by (intro down_hole_move[OF h j(2-4) min]) auto
      moreover have "n - j < n - k" using j by simp
      ultimately show ?thesis using less.hyps[of j ?c] by simp
    qed
  qed
qed

text \<open>The first node of a heap is a least one.\<close>

lemma heap_root_le:
  assumes "heap_cells cells n" "1 \<le> i" "i \<le> n"
  shows "key_at cells 1 \<le> key_at cells i"
  using assms(2,3)
proof (induction i rule: less_induct)
  case (less i)
  show ?case
  proof (cases "i = 1")
    case False
    then have "key_at cells 1 \<le> key_at cells (i div 2)" using less by simp
    also have "\<dots> \<le> key_at cells i" using assms(1) less False by (simp add: heap_cells_def)
    finally show ?thesis .
  qed simp
qed

end
