(* ===== verification/Delay_Queue.thy ===== *)
theory Delay_Queue
  imports Prelude "HOL-Library.Multiset"
begin

text \<open>
  The contract between the packet queue and the code that uses it. A \<open>prio_queue\<close> gives its
  elements back in the order of their keys; a \<open>fifo_queue\<close> also promises that a new element gets
  a greater key than all the others, from which it follows that elements leave in the order they
  came, whatever keys they asked for.
\<close>

text \<open>What a client gets by removing up to \<open>n\<close> elements.\<close>

fun drain :: "('q \<Rightarrow> ('b \<times> 'q) option) \<Rightarrow> nat \<Rightarrow> 'q \<Rightarrow> 'b list" where
  "drain del 0 q = []"
| "drain del (Suc n) q = (case del q of None \<Rightarrow> [] | Some (x, q') \<Rightarrow> x # drain del n q')"

locale prio_queue =
  fixes invar :: "'q \<Rightarrow> bool"
    and elems :: "'q \<Rightarrow> 'a multiset"
    and key :: "'a \<Rightarrow> 'k :: linorder"
    and out :: "'a \<Rightarrow> 'b"
    and del :: "'q \<Rightarrow> ('b \<times> 'q) option"
  assumes del_empty: "invar q \<Longrightarrow> elems q = {#} \<Longrightarrow> del q = None"
    and del_min: "invar q \<Longrightarrow> elems q \<noteq> {#} \<Longrightarrow>
      \<exists>x q'. del q = Some (out x, q') \<and> invar q' \<and> elems q = add_mset x (elems q') \<and>
        (\<forall>y \<in># elems q'. key x \<le> key y)"
begin

lemma drain_elems:
  assumes "invar q" "size (elems q) \<le> n"
  shows "\<exists>xs. drain del n q = map out xs \<and> mset xs = elems q \<and> sorted (map key xs)"
  using assms
proof (induction n arbitrary: q)
  case 0
  then show ?case by simp
next
  case (Suc n)
  show ?case
  proof (cases "elems q = {#}")
    case True
    then show ?thesis using del_empty Suc.prems by simp
  next
    case False
    then obtain x q' where d: "del q = Some (out x, q')" "invar q'" "elems q = add_mset x (elems q')"
      "\<forall>y \<in># elems q'. key x \<le> key y"
      using del_min Suc.prems by blast
    then obtain xs where xs: "drain del n q' = map out xs" "mset xs = elems q'" "sorted (map key xs)"
      using Suc.IH[of q'] Suc.prems by auto
    have "\<forall>y \<in> set xs. key x \<le> key y" using d(4) xs(2) by (simp flip: set_mset_mset)
    then show ?thesis using d xs by (intro exI[of _ "x # xs"]) auto
  qed
qed

lemma drain_length: "invar q \<Longrightarrow> length (drain del (size (elems q)) q) = size (elems q)"
  using drain_elems[of q "size (elems q)"] by (metis length_map order_refl size_mset)

end

locale fifo_queue = prio_queue invar elems key out del
  for invar :: "'q \<Rightarrow> bool"
    and elems :: "'q \<Rightarrow> 'a multiset"
    and key :: "'a \<Rightarrow> 'k :: linorder"
    and out :: "'a \<Rightarrow> 'b"
    and del :: "'q \<Rightarrow> ('b \<times> 'q) option" +
  fixes ins :: "'p \<Rightarrow> 'q \<Rightarrow> 'q \<Rightarrow> bool"
    and what :: "'p \<Rightarrow> 'b"
  assumes distinct_keys: "invar q \<Longrightarrow> mset xs = elems q \<Longrightarrow> distinct (map key xs)"
    and ins_last: "invar q \<Longrightarrow> ins p q q' \<Longrightarrow>
      invar q' \<and> (\<exists>x. elems q' = add_mset x (elems q) \<and> out x = what p \<and>
        (\<forall>y \<in># elems q. key y < key x))"
begin

definition contents :: "'q \<Rightarrow> 'b list" where
  "contents q = drain del (size (elems q)) q"

text \<open>Two sorted lists of the same elements with distinct keys are equal.\<close>

lemma sorted_unique:
  assumes "invar q" "mset xs = elems q" "mset ys = elems q" "sorted (map key xs)" "sorted (map key ys)"
  shows "xs = ys"
proof -
  have "distinct (map key xs)" "distinct (map key ys)" "set xs = set ys"
    using assms distinct_keys by (metis, metis, metis set_mset_mset)
  then have "map key xs = map key ys"
    using assms by (intro sorted_distinct_set_unique) auto
  moreover have "inj_on key (set xs \<union> set ys)"
    using \<open>distinct (map key xs)\<close> \<open>set xs = set ys\<close> by (simp add: distinct_map)
  ultimately show ?thesis by (metis inj_on_map_eq_map)
qed

lemma contents_eq:
  assumes "invar q" "mset xs = elems q" "sorted (map key xs)"
  shows "contents q = map out xs"
proof -
  obtain ys where "drain del (size (elems q)) q = map out ys" "mset ys = elems q" "sorted (map key ys)"
    using drain_elems[of q "size (elems q)"] assms(1) by auto
  then show ?thesis using sorted_unique[OF assms(1,2), of ys] assms(3) by (simp add: contents_def)
qed

lemma contents_list:
  assumes "invar q"
  obtains xs where "contents q = map out xs" "mset xs = elems q" "sorted (map key xs)"
  using drain_elems[OF assms order_refl] that by (auto simp: contents_def)

text \<open>The abstract queue is the list of contents: insertion appends, removal takes the head.\<close>

lemma ins_appends:
  assumes "invar q" "ins p q q'"
  shows "invar q' \<and> contents q' = contents q @ [what p]"
proof -
  obtain x where i: "invar q'" "elems q' = add_mset x (elems q)"
    "out x = what p" "\<forall>y \<in># elems q. key y < key x"
    using ins_last[OF assms] by blast
  obtain xs where xs: "contents q = map out xs" "mset xs = elems q" "sorted (map key xs)"
    using contents_list[OF assms(1)] by blast
  have "\<forall>y \<in> set xs. key y < key x" using i(4) xs(2) by (simp flip: set_mset_mset)
  then have "sorted (map key (xs @ [x]))" using xs(3) by (auto simp: sorted_append intro: less_imp_le)
  moreover have "mset (xs @ [x]) = elems q'" using xs(2) i(2) by simp
  ultimately have "contents q' = map out (xs @ [x])" by (intro contents_eq i(1)) auto
  then show ?thesis using i xs by simp
qed

lemma del_takes_head:
  assumes "invar q" "elems q \<noteq> {#}"
  shows "\<exists>x q'. del q = Some (x, q') \<and> invar q' \<and> contents q = x # contents q'"
proof -
  obtain x q' where d: "del q = Some (out x, q')" "invar q'" "elems q = add_mset x (elems q')"
    using del_min[OF assms] by blast
  then have "contents q = out x # contents q'" by (simp add: contents_def)
  then show ?thesis using d by blast
qed

lemma contents_empty: "invar q \<Longrightarrow> elems q = {#} \<longleftrightarrow> contents q = []"
  using drain_length[of q] by (auto simp: contents_def)

end

end
