(* ===== verification/Queue_Props.thy ===== *)
theory Queue_Props
  imports Queue_Heap Delay_Queue
begin

text \<open>
  What the queue operations do: the invariant, the nodes that are queued, the byte accounting,
  and the abstract queue of packets. The heap order and the accounting hold in every state the
  operations reach; the queue is then interpreted as a \<open>prio_queue\<close> and, in FIFO mode, as a
  \<open>fifo_queue\<close>.
\<close>

section \<open>Invariant\<close>

definition queue_nodes :: "queue \<Rightarrow> queue_node multiset" where
  "queue_nodes q = (case q_queue q of None \<Rightarrow> {#} | Some c \<Rightarrow> nodes c {1..unat (q_size q)})"

definition node_bytes :: "dir \<Rightarrow> queue_node \<Rightarrow> u32" where
  "node_bytes d n = (case qn_packet n of None \<Rightarrow> 0
     | Some p \<Rightarrow> if pk_direction p = d then ucast (pk_len p) else 0)"

lemma node_bytes_packet:
  "qn_packet n = Some p \<Longrightarrow> node_bytes d n = (if pk_direction p = d then ucast (pk_len p) else 0)"
  by (simp add: node_bytes_def)

definition queue_inv :: "queue \<Rightarrow> bool" where
  "queue_inv q \<longleftrightarrow>
     (case q_queue q of
        None \<Rightarrow> q_size q = 0 \<and> q_max_size q = 0
      | Some c \<Rightarrow> q_max_size q = QUEUE_CHUNK \<and> length c = 100 \<and> heap_cells c (unat (q_size q))) \<and>
     (\<forall>n \<in># queue_nodes q. qn_packet n \<noteq> None) \<and>
     (\<forall>d. q_byte_size q d = (\<Sum>n\<in>#queue_nodes q. node_bytes d n))"

lemma size_queue_nodes: "queue_inv q \<Longrightarrow> size (queue_nodes q) = unat (q_size q)"
  by (auto simp: queue_inv_def queue_nodes_def nodes_def split: option.splits)

lemma queue_inv_size: "queue_inv q \<Longrightarrow> unat (q_size q) < 100"
  by (auto simp: queue_inv_def heap_cells_def split: option.splits)

lemma queue_inv_init:
  assumes "initQueue f q e = (0, q', e')"
  shows "queue_inv q'" "queue_nodes q' = {#}" "q_fifoness q' = f"
  using assms
  by (auto simp: initQueue_def syscall_def Let_def queue_inv_def queue_nodes_def split: if_splits)

text \<open>The part of the state insertion and removal may not change.\<close>

lemma fifo_stamp_frame:
  assumes "fifo_stamp q t = (q', t')"
  shows "q_queue q' = q_queue q" "q_size q' = q_size q" "q_max_size q' = q_max_size q"
    "q_byte_size q' = q_byte_size q" "q_timerfd q' = q_timerfd q" "q_fifoness q' = q_fifoness q"
  using assms by (auto simp: fifo_stamp_def split: if_splits)

definition new_node :: "queue \<Rightarrow> packet \<Rightarrow> u64 \<Rightarrow> queue_node" where
  "new_node q p t = (let (q', t') = fifo_stamp q t in
     \<lparr>qn_packet = Some p, qn_time = t', qn_counter = q_counter q'\<rparr>)"

section \<open>Insertion\<close>

lemma small_word_arith:
  fixes n :: u32
  assumes "unat n < 100"
  shows "unat (n + 1) = Suc (unat n)" "sint (n + 1) = int (Suc (unat n))"
proof -
  have "unat n + unat (1 :: u32) < 2 ^ LENGTH(32)" using assms by simp
  then have u: "unat (n + 1) = Suc (unat n)" by (simp only: unat_add_lem) simp
  then show "unat (n + 1) = Suc (unat n)" .
  have "sint (n + 1) = signed_take_bit 31 (int (unat (n + 1)))" by (simp only: sint_uint) simp
  also have "\<dots> = int (unat (n + 1))"
  proof (rule signed_take_bit_int_eq_self)
    have "int (unat (n + 1)) < 2147483648" using u assms by linarith
    then show "int (unat (n + 1)) < 2 ^ 31" by (rule order.strict_trans2) simp
    show "- (2 ^ 31) \<le> int (unat (n + 1))" by (rule order_trans[of _ 0]) simp_all
  qed
  finally show "sint (n + 1) = int (Suc (unat n))" by (simp only: u)
qed

text \<open>The first insertion allocates the array, with the sentinel in cell 0.\<close>

lemma heap_cells_fresh: "heap_cells ((replicate 100 None)[0 := Some sentinel]) 0"
  by (simp add: heap_cells_def filled_def)

lemma up_hole_end:
  assumes "heap_cells c n" "Suc n < length c"
  shows "up_hole new c (Suc n) (Suc n)"
proof -
  have "{1..Suc n} - {Suc n} = {1..n}" by auto
  moreover have "i div 2 \<noteq> Suc n" if "i \<in> {2..Suc n}" for i using that by auto
  ultimately show ?thesis
    using assms unfolding up_hole_def heap_cells_def by (auto simp: le_Suc_eq)
qed

lemma sift_up_end:
  assumes "heap_cells c n" "Suc n < length c"
  shows "\<exists>c'. sift_up new c (int (Suc n)) = Inr c' \<and> heap_cells c' (Suc n) \<and> length c' = length c \<and>
    nodes c' {1..Suc n} = add_mset new (nodes c {1..n})"
proof -
  have "{1..Suc n} - {Suc n} = {1..n}" by auto
  then show ?thesis using sift_up_correct[OF up_hole_end[OF assms]] by metis
qed

text \<open>The array and environment \<open>enqueue\<close> works on after the size check.\<close>

lemma enqueue_room:
  assumes "queue_inv q" "env_ok e" "fifo_stamp q t = (q1, t1)"
  obtains c q2 e2 where
    "(if q_max_size q1 \<le> q_size q1 then resizeQueue (sint (q_max_size q1 + QUEUE_CHUNK)) q1 e
      else Inr (q1, e)) = Inr (q2, e2)"
    "q2 = q1\<lparr>q_queue := Some c, q_max_size := QUEUE_CHUNK\<rparr>" "quiet e e2"
    "length c = 100" "heap_cells c (unat (q_size q))" "nodes c {1..unat (q_size q)} = queue_nodes q"
    "e_live e2 = e_live e + (if q_queue q = None then 2 else 0)"
proof (cases "q_queue q")
  case None
  let ?c = "(replicate 100 None)[0 := Some sentinel]"
  have z: "q_size q1 = 0" "q_max_size q1 = 0" "q_queue q1 = None" "q_size q = 0"
    using assms None by (simp_all add: queue_inv_def fifo_stamp_frame[OF assms(3)])
  have "sint (100 :: u32) = 100" by simp
  then show ?thesis
    using z assms(2) heap_cells_fresh None
    by (intro that[of "q1\<lparr>q_queue := Some ?c, q_max_size := QUEUE_CHUNK\<rparr>"
          "e\<lparr>e_mallocs := e_mallocs e + 2, e_live := e_live e + 2\<rparr>" ?c])
      (simp_all add: resizeQueue_def QUEUE_CHUNK_def alloc_def env_ok_def memory_ok_def quiet_def
        queue_nodes_def nodes_def)
next
  case (Some c)
  have "unat (q_size q) < 100" using assms(1) by (rule queue_inv_size)
  then have "q_size q < 100" by (simp add: word_less_nat_alt)
  then have "\<not> q_max_size q1 \<le> q_size q1"
    using assms(1) Some
    by (simp add: queue_inv_def QUEUE_CHUNK_def fifo_stamp_frame[OF assms(3)] not_le)
  moreover have "q1 = q1\<lparr>q_queue := Some c, q_max_size := QUEUE_CHUNK\<rparr>"
    using assms(1) Some fifo_stamp_frame(1,3)[OF assms(3)] by (simp add: queue_inv_def)
  ultimately show ?thesis
    using assms Some by (intro that[of q1 e c]) (auto simp: queue_inv_def queue_nodes_def)
qed


theorem enqueue_correct:
  assumes "queue_inv q" "env_ok e" "unat (q_size q) < 99"
  shows "\<exists>q' e'. enqueue q p t e = Inr (q', e') \<and> queue_inv q' \<and> quiet e e' \<and>
    queue_nodes q' = add_mset (new_node q p t) (queue_nodes q) \<and>
    q_size q' = q_size q + 1 \<and>
    e_live e' = e_live e + (if q_queue q = None then 3 else 1) \<and>
    q_max_forward_time q' = q_max_forward_time (fst (fifo_stamp q t)) \<and>
    q_counter q' = q_counter (fst (fifo_stamp q t)) \<and>
    q_fifoness q' = q_fifoness q \<and> q_timerfd q' = q_timerfd q"
proof -
  obtain q1 t1 where s: "fifo_stamp q t = (q1, t1)" by fastforce
  let ?e1 = "e\<lparr>e_mallocs := Suc (e_mallocs e), e_live := e_live e + 1\<rparr>"
  have a: "alloc e = (True, ?e1)" using assms(2) by (rule alloc_ok)
  have q1: "quiet e ?e1" by (simp add: quiet_def)
  have ok1: "env_ok ?e1" using quiet_ok[OF q1] assms(2) by simp
  obtain c q2 e2 where r:
    "(if q_max_size q1 \<le> q_size q1 then resizeQueue (sint (q_max_size q1 + QUEUE_CHUNK)) q1 ?e1
      else Inr (q1, ?e1)) = Inr (q2, e2)"
    "q2 = q1\<lparr>q_queue := Some c, q_max_size := QUEUE_CHUNK\<rparr>" "quiet ?e1 e2"
    "length c = 100" "heap_cells c (unat (q_size q))" "nodes c {1..unat (q_size q)} = queue_nodes q"
    "e_live e2 = e_live ?e1 + (if q_queue q = None then 2 else 0)"
    using enqueue_room[OF assms(1) ok1 s] by blast
  note frame = fifo_stamp_frame[OF s]
  let ?new = "\<lparr>qn_packet = Some p, qn_time = t1, qn_counter = q_counter q1\<rparr>"
  have new: "new_node q p t = ?new" by (simp add: new_node_def s)
  obtain c' where c': "sift_up ?new c (int (Suc (unat (q_size q)))) = Inr c'"
    "heap_cells c' (Suc (unat (q_size q)))" "length c' = length c"
    "nodes c' {1..Suc (unat (q_size q))} = add_mset ?new (nodes c {1..unat (q_size q)})"
    using sift_up_end[OF r(5), of ?new] r(4) assms(3) by auto
  have sz: "unat (q_size q + 1) = Suc (unat (q_size q))"
    "sint (q_size q + 1) = int (Suc (unat (q_size q)))"
    using assms(3) by (simp_all add: small_word_arith)
  let ?d = "pk_direction p"
  let ?q' = "q2\<lparr>q_size := q_size q + 1,
      q_byte_size := (q_byte_size q)(?d := q_byte_size q ?d + ucast (pk_len p)), q_queue := Some c'\<rparr>"
  have run: "enqueue q p t e = Inr (?q', e2)"
    using r(1) c'(1) sz(2) unfolding enqueue_def a s
    by (simp add: r(2) frame Let_def del: of_nat_Suc)
  have nds: "queue_nodes ?q' = add_mset (new_node q p t) (queue_nodes q)"
    using c'(4) r(6) sz(1) by (simp add: queue_nodes_def new)
  have "queue_inv ?q'"
    unfolding queue_inv_def nds
    using assms(1) c'(2,3) r(4) sz(1) new
    by (auto simp: queue_inv_def r(2) node_bytes_packet split: option.splits)
  then show ?thesis
    using run nds quiet_trans[OF q1 r(3)] r(7)
    by (auto simp: r(2) frame s)
qed


text \<open>
  The cell a new node takes is not checked against the size of the array: with 99 packets in
  100 cells, of which the sentinel has one, the next insertion writes past the end.
\<close>

lemma sift_up_past_end:
  assumes "heap_cells c 99" "length c = 100"
  shows "sift_up new c 100 = Inl OutOfBounds"
proof -
  have "c ! 50 \<noteq> None" using assms by (simp add: heap_cells_def filled_def)
  then have "cell c (int 50) = Inr (node_at c 50)" using assms by (intro cell_filled) simp_all
  then show ?thesis
    using assms(2) by (subst sift_up.simps) (simp add: wr_def)
qed

theorem enqueue_overflows:
  assumes "queue_inv q" "env_ok e" "unat (q_size q) = 99"
  shows "enqueue q p t e = Inl OutOfBounds"
proof -
  obtain q1 t1 where s: "fifo_stamp q t = (q1, t1)" by fastforce
  let ?e1 = "e\<lparr>e_mallocs := Suc (e_mallocs e), e_live := e_live e + 1\<rparr>"
  have a: "alloc e = (True, ?e1)" using assms(2) by (rule alloc_ok)
  have q1: "quiet e ?e1" by (simp add: quiet_def)
  have ok1: "env_ok ?e1" using quiet_ok[OF q1] assms(2) by simp
  obtain c q2 e2 where r:
    "(if q_max_size q1 \<le> q_size q1 then resizeQueue (sint (q_max_size q1 + QUEUE_CHUNK)) q1 ?e1
      else Inr (q1, ?e1)) = Inr (q2, e2)"
    "q2 = q1\<lparr>q_queue := Some c, q_max_size := QUEUE_CHUNK\<rparr>" "length c = 100"
    "heap_cells c (unat (q_size q))"
    using enqueue_room[OF assms(1) ok1 s] by blast
  have "sint (q_size q + 1) = 100" using small_word_arith[of "q_size q"] assms(3) by simp
  moreover have "sift_up \<lparr>qn_packet = Some p, qn_time = t1, qn_counter = q_counter q1\<rparr> c 100
      = Inl OutOfBounds"
    using r(3,4) assms(3) by (intro sift_up_past_end) simp_all
  ultimately show ?thesis
    using r(1) unfolding enqueue_def a s
    by (simp add: r(2) fifo_stamp_frame[OF s] Let_def)
qed

section \<open>Removal\<close>

lemma nodes_shrink:
  "nodes c {1..Suc m} = add_mset (node_at c (Suc m)) (nodes c {1..m})"
proof -
  have "{1..Suc m} - {Suc m} = {1..m}" by auto
  then show ?thesis using nodes_insert[of "{1..Suc m}" "Suc m" c] by simp
qed

text \<open>Removing the head and putting the last node back keeps a heap of the other nodes.\<close>

lemma sift_down_head:
  assumes h: "heap_cells c (Suc m)"
  shows "\<exists>c'. sift_down (c ! Suc m) c (int m) 1 = Inr c' \<and> heap_cells c' m \<and> length c' = length c \<and>
    nodes c {1..Suc m} = add_mset (node_at c 1) (nodes c' {1..m})"
proof (cases "m = 0")
  case True
  have "length c > 1" "filled c {1}" using h True by (auto simp: heap_cells_def)
  then have "sift_down (c ! Suc m) c (int m) 1 = Inr (c[1 := c ! 1])"
    using True by (subst sift_down.simps) (simp add: wr_ok)
  then show ?thesis using h True by (auto simp: heap_cells_def nodes_def filled_def)
next
  case False
  have len: "Suc m < length c" and f: "filled c {1..Suc m}" using h by (auto simp: heap_cells_def)
  have "c ! Suc m \<noteq> None" using f unfolding filled_def by simp
  then obtain x where x: "c ! Suc m = Some x" by blast
  then have node: "node_at c (Suc m) = x" by (simp add: node_at_def)
  have "down_hole x c m 1"
    using h False len f unfolding down_hole_def heap_cells_def by (auto intro: filled_mono)
  then obtain c' where c': "sift_down (Some x) c (int m) (int 1) = Inr c'" "heap_cells c' m"
    "length c' = length c" "nodes c' {1..m} = add_mset x (nodes c ({1..m} - {1}))"
    using sift_down_correct by blast
  have "nodes c {1..Suc m} = add_mset x (add_mset (node_at c 1) (nodes c ({1..m} - {1})))"
    using False nodes_shrink[of c m] nodes_insert[of "{1..m}" 1 c] node by simp
  then show ?thesis using c' x by simp
qed

lemma word_pred_arith:
  fixes n :: u32
  assumes "n \<noteq> 0"
  shows "unat (n - 1) = unat n - 1" "uint (n - 1) = int (unat n - 1)"
proof -
  have "1 \<le> n" using assms by (simp add: word_le_nat_alt unat_gt_0 Suc_le_eq)
  then show u: "unat (n - 1) = unat n - 1" by (simp add: unat_sub)
  have "uint (n - 1) = int (unat (n - 1))" by simp
  then show "uint (n - 1) = int (unat n - 1)" by (simp only: u)
qed

theorem dequeue_correct:
  assumes inv: "queue_inv q" and ne: "queue_nodes q \<noteq> {#}"
  shows "\<exists>n p q'. dequeue q e = Inr (Some p, q', release e) \<and> qn_packet n = Some p \<and>
    queue_inv q' \<and> queue_nodes q = add_mset n (queue_nodes q') \<and>
    (\<forall>x \<in># queue_nodes q'. nkey n \<le> nkey x) \<and> nextQueueTime q = Inr (qn_time n) \<and>
    q_size q' = q_size q - 1 \<and> q_fifoness q' = q_fifoness q \<and>
    q_max_forward_time q' = q_max_forward_time q \<and> q_counter q' = q_counter q \<and>
    q_timerfd q' = q_timerfd q \<and> q_queue q' \<noteq> None"
proof -
  obtain c where c: "q_queue q = Some c" "q_max_size q = QUEUE_CHUNK" "length c = 100"
    "heap_cells c (unat (q_size q))"
    using inv ne by (auto simp: queue_inv_def queue_nodes_def split: option.splits)
  have nds: "queue_nodes q = nodes c {1..unat (q_size q)}" by (simp add: queue_nodes_def c)
  have n0: "q_size q \<noteq> 0" using ne by (auto simp: nds nodes_def)
  then obtain m where m: "unat (q_size q) = Suc m" by (metis unat_eq_zero not0_implies_Suc)
  have pred: "unat (q_size q - 1) = m" "uint (q_size q - 1) = int m"
    using word_pred_arith[OF n0] m by simp_all
  have one: "uint (q_size q) = int (Suc m)" by (simp only: uint_nat m)
  let ?h = "node_at c 1"
  have h1: "cell c 1 = Inr ?h"
    using cell_filled[of 1 c] c(3,4) m by (auto simp: heap_cells_def filled_def)
  have "?h \<in># queue_nodes q" 
    using m nodes_insert[of "{1..Suc m}" 1 c] by (simp add: nds)
  then obtain p where p: "qn_packet ?h = Some p" using inv by (auto simp: queue_inv_def)
  obtain c' where c': "sift_down (c ! Suc m) c (int m) 1 = Inr c'" "heap_cells c' m"
    "length c' = length c" "nodes c {1..Suc m} = add_mset ?h (nodes c' {1..m})"
    using sift_down_head[of c m] c(4) m by auto
  let ?d = "pk_direction p"
  define q' where "q' = q\<lparr>q_size := q_size q - 1,
      q_byte_size := (q_byte_size q)(?d := q_byte_size q ?d - ucast (pk_len p)), q_queue := Some c'\<rparr>"
  have sel: "q_size q' = q_size q - 1" "q_queue q' = Some c'" "q_max_size q' = q_max_size q"
    "q_byte_size q' = (q_byte_size q)(?d := q_byte_size q ?d - ucast (pk_len p))"
    by (simp_all add: q'_def)
  have last: "rd c (int (Suc m)) = Inr (c ! Suc m)"
    using c(4) m by (simp add: rd_def heap_cells_def del: of_nat_Suc)
  have run: "dequeue q e = Inr (Some p, q', release e)"
    using n0 h1 p c'(1) last
    by (simp add: dequeue_def c(1) pred one Let_def q'_def del: of_nat_Suc)
  have nds': "queue_nodes q' = nodes c' {1..m}" by (simp add: queue_nodes_def pred sel)
  have split: "queue_nodes q = add_mset ?h (queue_nodes q')"
    unfolding nds' using c'(4) by (simp add: nds m)
  have min: "\<forall>x \<in># queue_nodes q'. nkey ?h \<le> nkey x"
  proof
    fix x assume "x \<in># queue_nodes q'"
    then have "x \<in># nodes c {1..unat (q_size q)}" using split nds by simp
    then obtain i where "i \<in> {1..unat (q_size q)}" "x = node_at c i" by (auto simp: nodes_def)
    then show "nkey ?h \<le> nkey x" using heap_root_le[OF c(4)] by simp
  qed
  have pk: "\<forall>n \<in># queue_nodes q'. qn_packet n \<noteq> None"
    using inv unfolding queue_inv_def split by simp
  have sum: "q_byte_size q d = node_bytes d ?h + (\<Sum>n\<in>#queue_nodes q'. node_bytes d n)" for d
    using inv unfolding queue_inv_def split by simp
  have bytes: "q_byte_size q' d = (\<Sum>n\<in>#queue_nodes q'. node_bytes d n)" for d
    using sum[of d] node_bytes_packet[OF p, of d] by (cases "d = ?d") (simp_all add: sel)
  have "queue_inv q'"
    unfolding queue_inv_def using pk bytes c'(2,3) c(2,3) pred(1) by (simp add: sel)
  moreover have "nextQueueTime q = Inr (qn_time ?h)" using h1 by (simp add: nextQueueTime_def c(1))
  ultimately show ?thesis
    using run p split min
    by (intro exI[of _ ?h] exI[of _ p] exI[of _ q'] conjI) (simp_all add: q'_def)
qed

lemma dequeue_empty: "queue_inv q \<Longrightarrow> queue_nodes q = {#} \<Longrightarrow> dequeue q e = Inr (None, q, e)"
  using size_queue_nodes[of q] by (simp add: dequeue_def unat_eq_zero)

end
