(* ===== verification/Queue_Fifo.thy ===== *)
theory Queue_Fifo
  imports Queue_Props
begin

text \<open>
  The packet queue as a value of the abstract interfaces of \<open>Delay_Queue\<close>. The abstract state
  is the list of packets in the order in which repeated removal would return them.
\<close>

section \<open>Removal as a function of the queue\<close>

definition q_del :: "queue \<Rightarrow> (packet \<times> queue) option" where
  "q_del q = (case dequeue q idle_env of Inr (Some p, q', e') \<Rightarrow> Some (p, q') | _ \<Rightarrow> None)"

definition queue_contents :: "queue \<Rightarrow> packet list" where
  "queue_contents q = drain q_del (unat (q_size q)) q"

text \<open>Removal does not look at the environment.\<close>

lemma dequeue_any_env:
  "dequeue q e = Inr (Some p, q', release e) \<Longrightarrow> dequeue q e2 = Inr (Some p, q', release e2)"
  unfolding dequeue_def
  by (auto simp: rbind_eq_Inr Let_def split: if_splits)

definition node_packet :: "queue_node \<Rightarrow> packet" where
  "node_packet n = the (qn_packet n)"

lemma q_del_correct:
  assumes "queue_inv q" "queue_nodes q \<noteq> {#}"
  shows "\<exists>n q'. q_del q = Some (node_packet n, q') \<and> queue_inv q' \<and>
    queue_nodes q = add_mset n (queue_nodes q') \<and> (\<forall>x \<in># queue_nodes q'. nkey n \<le> nkey x) \<and>
    q_fifoness q' = q_fifoness q \<and> q_max_forward_time q' = q_max_forward_time q \<and>
    q_counter q' = q_counter q"
  using dequeue_correct[OF assms, of idle_env] by (fastforce simp: q_del_def node_packet_def)

interpretation pq: prio_queue queue_inv queue_nodes nkey node_packet q_del
proof
  show "q_del q = None" if "queue_inv q" "queue_nodes q = {#}" for q
    using dequeue_empty[OF that] by (simp add: q_del_def)
  show "\<exists>x q'. q_del q = Some (node_packet x, q') \<and> queue_inv q' \<and>
      queue_nodes q = add_mset x (queue_nodes q') \<and> (\<forall>y \<in># queue_nodes q'. nkey x \<le> nkey y)"
    if "queue_inv q" "queue_nodes q \<noteq> {#}" for q
    using q_del_correct[OF that] by blast
qed

section \<open>FIFO mode\<close>

definition distinct_keys :: "queue_node multiset \<Rightarrow> bool" where
  "distinct_keys M \<longleftrightarrow> (\<forall>k. count (image_mset nkey M) k \<le> 1)"

text \<open>In FIFO mode no queued key is above the last one given out, and no two are equal.\<close>

definition fifo_inv :: "queue \<Rightarrow> bool" where
  "fifo_inv q \<longleftrightarrow> queue_inv q \<and> q_fifoness q = FIFO \<and> distinct_keys (queue_nodes q) \<and>
     (\<forall>n \<in># queue_nodes q. nkey n \<le> QKey (q_max_forward_time q) (q_counter q))"

text \<open>The counter of equal times has a free value left.\<close>

definition stamp_free :: "queue \<Rightarrow> u64 \<Rightarrow> bool" where
  "stamp_free q t \<longleftrightarrow> q_max_forward_time q < t \<or> q_counter q \<noteq> - 1"

lemma distinct_keys_list: "distinct_keys M \<Longrightarrow> mset xs = M \<Longrightarrow> distinct (map nkey xs)"
proof -
  assume d: "distinct_keys M" "mset xs = M"
  have "count (mset (map nkey xs)) k = (if k \<in> set (map nkey xs) then 1 else 0)" for k
  proof (cases "k \<in> set (map nkey xs)")
    case True
    then have "0 < count (mset (map nkey xs)) k" by (simp only: count_greater_zero_iff set_mset_mset)
    moreover have "count (mset (map nkey xs)) k \<le> 1" using d by (simp add: distinct_keys_def)
    ultimately have "count (mset (map nkey xs)) k = 1" by linarith
    then show ?thesis using True by (simp only: if_True)
  next
    case False
    then have "k \<notin># mset (map nkey xs)" by (simp only: set_mset_mset not_False_eq_True)
    then show ?thesis using False by (simp only: not_in_iff if_False)
  qed
  then show ?thesis by (simp only: distinct_count_atmost_1) blast
qed

lemma distinct_keys_add:
  "distinct_keys M \<Longrightarrow> \<forall>y \<in># M. nkey y < nkey x \<Longrightarrow> distinct_keys (add_mset x M)"
proof -
  assume M: "distinct_keys M" "\<forall>y \<in># M. nkey y < nkey x"
  then have "nkey x \<notin># image_mset nkey M" by auto
  then have "count (image_mset nkey M) (nkey x) = 0" by (simp only: not_in_iff)
  with M(1) show ?thesis by (simp add: distinct_keys_def)
qed

lemma distinct_keys_sub: "distinct_keys (add_mset x M) \<Longrightarrow> distinct_keys M"
  unfolding distinct_keys_def by (metis count_add_mset image_mset_add_mset le_SucE le_Suc_eq Suc_leD)

lemma stamp_increases:
  assumes "q_fifoness q = FIFO" "stamp_free q t"
  shows "QKey (q_max_forward_time q) (q_counter q) < nkey (new_node q p t)"
    "nkey (new_node q p t) =
      QKey (q_max_forward_time (fst (fifo_stamp q t))) (q_counter (fst (fifo_stamp q t)))"
proof -
  have "q_counter q < q_counter q + 1" if "q_counter q \<noteq> - 1"
    using that by (simp add: not_le[symmetric] inc_less_eq_self_iff_eq)
  then show "QKey (q_max_forward_time q) (q_counter q) < nkey (new_node q p t)"
    using assms by (auto simp: new_node_def fifo_stamp_def nkey_def less_qkey_def stamp_free_def)
  show "nkey (new_node q p t) =
      QKey (q_max_forward_time (fst (fifo_stamp q t))) (q_counter (fst (fifo_stamp q t)))"
    using assms by (auto simp: new_node_def fifo_stamp_def nkey_def)
qed


definition q_ins :: "packet \<times> u64 \<Rightarrow> queue \<Rightarrow> queue \<Rightarrow> bool" where
  "q_ins pt q q' \<longleftrightarrow> stamp_free q (snd pt) \<and>
     (\<exists>e e'. env_ok e \<and> enqueue q (fst pt) (snd pt) e = Inr (q', e'))"

lemma enqueue_returns_size:
  assumes "queue_inv q" "env_ok e" "enqueue q p t e = Inr s"
  shows "unat (q_size q) < 99"
proof (rule ccontr)
  assume "\<not> unat (q_size q) < 99"
  then have "unat (q_size q) = 99" using queue_inv_size[OF assms(1)] by simp
  then show False using enqueue_overflows[OF assms(1,2)] assms(3) by simp
qed

lemma fifo_inv_enqueue:
  assumes "fifo_inv q" "q_ins (p, t) q q'"
  shows "fifo_inv q' \<and> queue_nodes q' = add_mset (new_node q p t) (queue_nodes q) \<and>
    (\<forall>y \<in># queue_nodes q. nkey y < nkey (new_node q p t))"
proof -
  obtain e e' where e: "env_ok e" "enqueue q p t e = Inr (q', e')" and s: "stamp_free q t"
    using assms(2) by (auto simp: q_ins_def)
  have inv: "queue_inv q" "q_fifoness q = FIFO" "distinct_keys (queue_nodes q)"
    "\<forall>n \<in># queue_nodes q. nkey n \<le> QKey (q_max_forward_time q) (q_counter q)"
    using assms(1) by (auto simp: fifo_inv_def)
  note st = stamp_increases[OF inv(2) s, of p]
  have lt: "\<forall>y \<in># queue_nodes q. nkey y < nkey (new_node q p t)"
    using inv(4) st(1) by (auto intro: le_less_trans)
  have q': "queue_inv q'" "queue_nodes q' = add_mset (new_node q p t) (queue_nodes q)"
    "q_max_forward_time q' = q_max_forward_time (fst (fifo_stamp q t))"
    "q_counter q' = q_counter (fst (fifo_stamp q t))" "q_fifoness q' = q_fifoness q"
    using enqueue_correct[OF inv(1) e(1) enqueue_returns_size[OF inv(1) e], of p t] e(2) by auto
  have "\<forall>n \<in># queue_nodes q'. nkey n \<le> QKey (q_max_forward_time q') (q_counter q')"
    using lt q' st(2) by (auto intro: less_imp_le)
  then show ?thesis
    using q' inv lt by (auto simp: fifo_inv_def intro: distinct_keys_add)
qed

lemma fifo_inv_del:
  assumes "fifo_inv q" "queue_nodes q = add_mset n (queue_nodes q')" "queue_inv q'"
    "q_fifoness q' = q_fifoness q" "q_max_forward_time q' = q_max_forward_time q"
    "q_counter q' = q_counter q"
  shows "fifo_inv q'"
  using assms distinct_keys_sub[of n "queue_nodes q'"] by (auto simp: fifo_inv_def)

interpretation fq: fifo_queue fifo_inv queue_nodes nkey node_packet q_del q_ins fst
proof
  show "q_del q = None" if "fifo_inv q" "queue_nodes q = {#}" for q
    using pq.del_empty that by (simp add: fifo_inv_def)
  show "\<exists>x q'. q_del q = Some (node_packet x, q') \<and> fifo_inv q' \<and>
      queue_nodes q = add_mset x (queue_nodes q') \<and> (\<forall>y \<in># queue_nodes q'. nkey x \<le> nkey y)"
    if "fifo_inv q" "queue_nodes q \<noteq> {#}" for q
    using q_del_correct[of q] fifo_inv_del[OF that(1)] that unfolding fifo_inv_def by metis
  show "distinct (map nkey xs)" if "fifo_inv q" "mset xs = queue_nodes q" for q xs
    using that unfolding fifo_inv_def by (blast intro: distinct_keys_list)
  show "fifo_inv q' \<and> (\<exists>x. queue_nodes q' = add_mset x (queue_nodes q) \<and> node_packet x = fst pt \<and>
      (\<forall>y \<in># queue_nodes q. nkey y < nkey x))"
    if "fifo_inv q" "q_ins pt q q'" for pt q q'
    using fifo_inv_enqueue[of q "fst pt" "snd pt" q'] that
    by (auto simp: node_packet_def new_node_def split: prod.splits)
qed

lemma queue_contents_eq: "queue_inv q \<Longrightarrow> queue_contents q = fq.contents q"
  by (simp add: queue_contents_def fq.contents_def size_queue_nodes)


section \<open>The abstract queue\<close>

text \<open>In every mode packets leave by increasing key, that is by forward time first.\<close>

theorem contents_sorted:
  assumes "queue_inv q"
  shows "\<exists>ns. queue_contents q = map node_packet ns \<and> mset ns = queue_nodes q \<and>
    sorted (map nkey ns)"
  using pq.drain_elems[OF assms order_refl] by (simp add: queue_contents_def size_queue_nodes[OF assms])

text \<open>The queued nodes sorted by forward time and counter, read off the array without removing anything.\<close>

definition by_key :: "queue \<Rightarrow> queue_node list" where
  "by_key q = (case q_queue q of None \<Rightarrow> []
     | Some c \<Rightarrow> sort_key nkey (map (node_at c) [1..<Suc (unat (q_size q))]))"

lemma by_key_nodes: "mset (by_key q) = queue_nodes q" "sorted (map nkey (by_key q))"
proof -
  show "mset (by_key q) = queue_nodes q"
    by (cases "q_queue q")
      (simp_all add: by_key_def queue_nodes_def nodes_def atLeastLessThanSuc_atLeastAtMost del: upt_Suc)
  show "sorted (map nkey (by_key q))" by (cases "q_queue q") (simp_all add: by_key_def)
qed

lemma by_key_unique:
  assumes "fifo_inv q" "mset ns = queue_nodes q" "sorted (map nkey ns)"
  shows "by_key q = ns"
  using fq.sorted_unique[OF assms(1) by_key_nodes(1) assms(2) by_key_nodes(2) assms(3)] .

lemma by_key_contents: "fifo_inv q \<Longrightarrow> queue_contents q = map node_packet (by_key q)"
  using fq.contents_eq[OF _ by_key_nodes] queue_contents_eq by (auto simp: fifo_inv_def)

lemma by_key_empty: "queue_inv q \<Longrightarrow> by_key q = [] \<longleftrightarrow> q_size q = 0"
  using size_queue_nodes[of q] unat_eq_zero[of "q_size q"] by (auto simp flip: by_key_nodes(1))

text \<open>Insertion in FIFO mode puts the stamped node at the end, removal takes the first.\<close>

lemma enqueue_by_key:
  assumes "fifo_inv q" "env_ok e" "stamp_free q t" "enqueue q p t e = Inr (q', e')"
  shows "fifo_inv q' \<and> by_key q' = by_key q @ [new_node q p t]"
proof -
  have "q_ins (p, t) q q'" using assms by (auto simp: q_ins_def)
  note i = fifo_inv_enqueue[OF assms(1) this]
  have "\<forall>y \<in> set (by_key q). nkey y < nkey (new_node q p t)" using i by (simp flip: set_mset_mset add: by_key_nodes)
  then have "sorted (map nkey (by_key q @ [new_node q p t]))"
    using by_key_nodes(2)[of q] by (auto simp: sorted_append intro: less_imp_le)
  moreover have "mset (by_key q @ [new_node q p t]) = queue_nodes q'" using i by (simp add: by_key_nodes)
  ultimately show ?thesis using by_key_unique i by blast
qed

lemma dequeue_by_key:
  assumes "fifo_inv q" "by_key q = n # ns"
  shows "\<exists>q' p. dequeue q e = Inr (Some p, q', release e) \<and> qn_packet n = Some p \<and> fifo_inv q' \<and> by_key q' = ns \<and>
    nextQueueTime q = Inr (qn_time n)"
proof -
  have inv: "queue_inv q" using assms(1) by (simp add: fifo_inv_def)
  have ne: "queue_nodes q \<noteq> {#}" using assms(2) by (simp flip: by_key_nodes(1))
  obtain m p q' where d: "dequeue q e = Inr (Some p, q', release e)" "qn_packet m = Some p" "queue_inv q'"
    "queue_nodes q = add_mset m (queue_nodes q')" "\<forall>x \<in># queue_nodes q'. nkey m \<le> nkey x"
    "nextQueueTime q = Inr (qn_time m)" "q_fifoness q' = q_fifoness q"
    "q_max_forward_time q' = q_max_forward_time q" "q_counter q' = q_counter q"
    using dequeue_correct[OF inv ne, of e] by blast
  have f: "fifo_inv q'" using fifo_inv_del[OF assms(1) d(4,3,7,8,9)] .
  have "\<forall>x \<in> set (by_key q'). nkey m \<le> nkey x" using d(5) by (simp flip: set_mset_mset add: by_key_nodes)
  then have "sorted (map nkey (m # by_key q'))" using by_key_nodes(2)[of q'] by simp
  moreover have "mset (m # by_key q') = queue_nodes q" using d(4) by (simp add: by_key_nodes)
  ultimately have "by_key q = m # by_key q'" using by_key_unique[OF assms(1)] by blast
  then show ?thesis using d f assms(2) by auto
qed

text \<open>In FIFO mode insertion appends to the abstract queue and removal takes its head.\<close>

theorem enqueue_appends:
  assumes "fifo_inv q" "env_ok e" "unat (q_size q) < 99" "stamp_free q t"
  shows "\<exists>q' e'. enqueue q p t e = Inr (q', e') \<and> fifo_inv q' \<and>
    queue_contents q' = queue_contents q @ [p]"
proof -
  have inv: "queue_inv q" using assms(1) by (simp add: fifo_inv_def)
  obtain q' e' where run: "enqueue q p t e = Inr (q', e')" "queue_inv q'"
    using enqueue_correct[OF inv assms(2,3)] by blast
  then have "q_ins (p, t) q q'" using assms by (auto simp: q_ins_def)
  from fq.ins_appends[OF assms(1) this] show ?thesis
    using run inv by (simp add: queue_contents_eq)
qed

theorem dequeue_takes_head:
  assumes "fifo_inv q" "queue_contents q = p # ps"
  shows "\<exists>q'. dequeue q e = Inr (Some p, q', release e) \<and> fifo_inv q' \<and> queue_contents q' = ps"
proof -
  have inv: "queue_inv q" using assms(1) by (simp add: fifo_inv_def)
  have ne: "queue_nodes q \<noteq> {#}"
    using assms(2) fq.contents_empty[OF assms(1)] by (auto simp: queue_contents_eq[OF inv])
  obtain x q' where d: "q_del q = Some (x, q')" "fifo_inv q'" "fq.contents q = x # fq.contents q'"
    using fq.del_takes_head[OF assms(1) ne] by blast
  have q': "queue_inv q'" using d(2) by (simp add: fifo_inv_def)
  have "queue_contents q = x # queue_contents q'"
    using d(3) by (simp add: queue_contents_eq inv q')
  then have "x = p" "queue_contents q' = ps" using assms(2) by simp_all
  moreover obtain p2 q2 where "dequeue q idle_env = Inr (Some p2, q2, release idle_env)"
    using dequeue_correct[OF inv ne] by blast
  then have "dequeue q idle_env = Inr (Some x, q', release idle_env)"
    using d(1) by (simp add: q_del_def)
  ultimately show ?thesis using d(2) dequeue_any_env by blast
qed

lemma contents_empty_iff: "queue_inv q \<Longrightarrow> queue_contents q = [] \<longleftrightarrow> q_size q = 0"
  using pq.drain_length[of q] by (auto simp: queue_contents_def size_queue_nodes unat_eq_zero)

lemma fifo_inv_init:
  assumes "initQueue FIFO q e = (0, q', e')"
  shows "fifo_inv q' \<and> queue_contents q' = []"
  using queue_inv_init[OF assms]
  by (simp add: fifo_inv_def distinct_keys_def contents_empty_iff size_queue_nodes[symmetric]
      flip: unat_eq_zero)

text \<open>A whole burst: what is put in comes out in the same order, whatever the forward times.\<close>

fun enqueue_all :: "queue \<Rightarrow> (packet \<times> u64) list \<Rightarrow> env \<Rightarrow> (queue \<times> env) res" where
  "enqueue_all q [] e = Inr (q, e)"
| "enqueue_all q ((p, t) # pts) e = rbind (enqueue q p t e) (\<lambda>(q, e). enqueue_all q pts e)"

fun dequeue_all :: "nat \<Rightarrow> queue \<Rightarrow> env \<Rightarrow> (packet list \<times> queue \<times> env) res" where
  "dequeue_all 0 q e = Inr ([], q, e)"
| "dequeue_all (Suc n) q e =
     rbind (dequeue q e) (\<lambda>(p, q, e). rbind (deref p) (\<lambda>p.
       rbind (dequeue_all n q e) (\<lambda>(ps, q, e). Inr (p # ps, q, e))))"

lemma fifo_stamp_counter: "unat (q_counter (fst (fifo_stamp q t))) \<le> Suc (unat (q_counter q))"
proof -
  have "unat (q_counter q + 1) \<le> Suc (unat (q_counter q))"
    by (simp add: unat_word_ariths(1) mod_le_divisor)
  then show ?thesis by (auto simp: fifo_stamp_def)
qed

lemma enqueue_all_appends:
  assumes "fifo_inv q" "env_ok e" "unat (q_size q) + length pts \<le> 99"
    "unat (q_counter q) + length pts < 2 ^ 32"
  shows "\<exists>q' e'. enqueue_all q pts e = Inr (q', e') \<and> fifo_inv q' \<and> env_ok e' \<and>
    queue_contents q' = queue_contents q @ map fst pts"
  using assms
proof (induction pts arbitrary: q e)
  case (Cons pt pts)
  obtain p t where pt: "pt = (p, t)" by fastforce
  have inv: "queue_inv q" using Cons.prems(1) by (simp add: fifo_inv_def)
  have sz: "unat (q_size q) < 99" using Cons.prems(3) by simp
  have "q_counter q \<noteq> - 1"
  proof
    assume "q_counter q = - 1"
    then have "unat (q_counter q) = 4294967295"
      by (simp add: unsigned_minus_1_eq_mask mask_eq_exp_minus_1)
    then show False using Cons.prems(4) by simp
  qed
  then have free: "stamp_free q t" by (simp add: stamp_free_def)
  obtain q1 e1 where r: "enqueue q p t e = Inr (q1, e1)" "fifo_inv q1"
    "queue_contents q1 = queue_contents q @ [p]"
    using enqueue_appends[OF Cons.prems(1,2) sz free] by blast
  have r2: "quiet e e1" "q_size q1 = q_size q + 1" "q_counter q1 = q_counter (fst (fifo_stamp q t))"
    using enqueue_correct[OF inv Cons.prems(2) sz, of p t] r(1) by auto
  have "unat (q_size q1) = Suc (unat (q_size q))" using small_word_arith[of "q_size q"] sz r2 by simp
  moreover have "unat (q_counter q1) \<le> Suc (unat (q_counter q))"
    using fifo_stamp_counter[of q t] r2(3) by simp
  ultimately have "\<exists>q' e'. enqueue_all q1 pts e1 = Inr (q', e') \<and> fifo_inv q' \<and> env_ok e' \<and>
      queue_contents q' = queue_contents q1 @ map fst pts"
    using Cons.prems r(2) quiet_ok[OF r2(1)] by (intro Cons.IH) auto
  then show ?case using r by (auto simp: pt)
qed simp

lemma dequeue_all_contents:
  assumes "fifo_inv q" "queue_contents q = ps"
  shows "\<exists>q' e'. dequeue_all (length ps) q e = Inr (ps, q', e') \<and> fifo_inv q' \<and> queue_contents q' = []"
  using assms
proof (induction ps arbitrary: q e)
  case (Cons p ps)
  obtain q1 where d: "dequeue q e = Inr (Some p, q1, release e)" "fifo_inv q1" "queue_contents q1 = ps"
    using dequeue_takes_head[OF Cons.prems] by blast
  obtain q2 e2 where "dequeue_all (length ps) q1 (release e) = Inr (ps, q2, e2)" "fifo_inv q2"
    "queue_contents q2 = []"
    using Cons.IH[OF d(2,3)] by blast
  then show ?case using d by simp
qed simp

theorem fifo_burst:
  assumes "initQueue FIFO q e = (0, q0, e0)" "env_ok e0" "length pts \<le> 99"
  shows "\<exists>q1 e1 q2 e2. enqueue_all q0 pts e0 = Inr (q1, e1) \<and>
    dequeue_all (length pts) q1 e1 = Inr (map fst pts, q2, e2) \<and> q_size q2 = 0"
proof -
  have q0: "fifo_inv q0" "queue_contents q0 = []" using fifo_inv_init[OF assms(1)] by auto
  have "q_size q0 = 0" "q_counter q0 = 0"
    using assms(1) by (auto simp: initQueue_def syscall_def Let_def split: if_splits)
  then obtain q1 e1 where q1: "enqueue_all q0 pts e0 = Inr (q1, e1)" "fifo_inv q1"
    "queue_contents q1 = map fst pts"
    using enqueue_all_appends[OF q0(1) assms(2), of pts] assms(3) q0(2) by auto
  obtain q2 e2 where "dequeue_all (length pts) q1 e1 = Inr (map fst pts, q2, e2)" "fifo_inv q2"
    "queue_contents q2 = []"
    using dequeue_all_contents[OF q1(2,3), of e1] by auto
  moreover have "q_size q2 = 0"
    using calculation(2,3) contents_empty_iff by (auto simp: fifo_inv_def)
  ultimately show ?thesis using q1(1) by blast
qed

section \<open>The timer\<close>

text \<open>
  The timer is armed for the head of the queue, or for one nanosecond when its time has come;
  it is never disarmed by mistake with a zero time.
\<close>

lemma setTimer_split:
  "uint (t div 1000000000) * 1000000000 + uint (t mod 1000000000) = uint (t :: u64)"
  "uint (t mod 1000000000) < 1000000000"
proof -
  have "uint (1000000000 :: u64) = 1000000000" by simp
  then show "uint (t div 1000000000) * 1000000000 + uint (t mod 1000000000) = uint t"
    "uint (t mod 1000000000) < 1000000000"
    by (simp_all add: uint_div uint_mod)
qed

lemma signed_diff:
  fixes a b :: u64
  assumes "uint a < 2 ^ 63" "uint b < 2 ^ 63"
  shows "sint (a - b) = uint a - uint b" "uint b \<le> uint a \<Longrightarrow> uint (a - b) = uint a - uint b"
proof -
  have "uint (a - b) = take_bit 64 (uint a - uint b)"
    by (simp add: uint_word_ariths take_bit_eq_mod)
  then have "sint (a - b) = signed_take_bit 63 (uint a - uint b)"
    by (simp add: sint_uint signed_take_bit_take_bit)
  also have "\<dots> = uint a - uint b"
  proof (rule signed_take_bit_int_eq_self)
    have "uint a < 9223372036854775808" "uint b < 9223372036854775808" "0 \<le> uint a" "0 \<le> uint b"
      using assms by simp_all
    then have "- 9223372036854775808 \<le> uint a - uint b" "uint a - uint b < 9223372036854775808"
      by linarith+
    then show "- (2 ^ 63) \<le> uint a - uint b" "uint a - uint b < 2 ^ 63" by simp_all
  qed
  finally show "sint (a - b) = uint a - uint b" .
  show "uint (a - b) = uint a - uint b" if "uint b \<le> uint a"
    using that by (simp add: uint_sub_lem[symmetric])
qed

theorem setQueueTimer_arms:
  assumes "queue_inv q" "queue_nodes q \<noteq> {#}" "env_ok e"
    "nextQueueTime q = Inr next" "uint next < 2 ^ 63"
  shows "\<exists>now e1 s n e'. now_ns e = Inr (now, e1) \<and> setQueueTimer q e = Inr e' \<and>
    e_trace e' = e_trace e @ [SetTime (q_timerfd q) s n] \<and> 0 \<le> s \<and> 0 \<le> n \<and> n < 1000000000 \<and>
    s * 1000000000 + n = max 1 (uint next - uint now)"
proof -
  obtain now where now: "now_ns e = Inr (now, e\<lparr>e_reads := Suc (e_reads e)\<rparr>)" "uint now < 2 ^ 63"
    using now_ns_ok[OF assms(3)] by blast
  let ?e1 = "e\<lparr>e_reads := Suc (e_reads e)\<rparr>"
  let ?t = "if sint (next - now) \<le> 0 then 1 else next - now"
  have ok: "env_ok ?e1" using assms(3) env_ok_cong[of ?e1 e] by simp
  have t: "uint ?t = max 1 (uint next - uint now)"
    using signed_diff[OF assms(5) now(2)] by auto
  have "setQueueTimer q e = setTimer (q_timerfd q) ?t ?e1"
    by (simp add: setQueueTimer_def assms(4) now(1) Let_def)
  then show ?thesis
    using now(1) setTimer_ok[OF ok, of "q_timerfd q" ?t] setTimer_split[of ?t] t
    by (auto simp: syscall_def)
qed

end
