(* ===== verification/Queue_Spec.thy ===== *)
theory Queue_Spec
  imports Queue_Fifo
begin

text \<open>
  The contract of the packet queue, each part with a run on concrete packets.
\<close>

section \<open>A concrete queue\<close>

definition empty_queue :: queue where
  "empty_queue = \<lparr>q_queue = None, q_size = 0, q_max_size = 0, q_byte_size = (\<lambda>_. 0), q_timerfd = 5,
     q_fifoness = FIFO, q_max_forward_time = 0, q_counter = 0\<rparr>"

definition ping :: packet where
  "ping = \<lparr>pk_buf = [8, 0, 247, 255], pk_len = 4, pk_flags = 0, pk_direction = LEFT_TO_RIGHT\<rparr>"

lemma empty_queue_inv: "queue_inv empty_queue" "queue_nodes empty_queue = {#}"
  "fifo_inv empty_queue" "queue_contents empty_queue = []" "q_size empty_queue = 0"
  "q_counter empty_queue = 0"
proof -
  show *: "queue_inv empty_queue" "queue_nodes empty_queue = {#}" "q_size empty_queue = 0"
    "q_counter empty_queue = 0"
    by (simp_all add: empty_queue_def queue_inv_def queue_nodes_def)
  then show "queue_contents empty_queue = []" by (simp add: contents_empty_iff)
  show "fifo_inv empty_queue"
    using * by (simp add: fifo_inv_def distinct_keys_def empty_queue_def)
qed

text \<open>The queue after \<open>n\<close> pings with the same forward time.\<close>

lemma pings_queue:
  assumes "n \<le> 99"
  shows "\<exists>q e. enqueue_all empty_queue (replicate n (ping, 7)) idle_env = Inr (q, e) \<and> fifo_inv q \<and>
    queue_inv q \<and> env_ok e \<and> queue_contents q = replicate n ping \<and> unat (q_size q) = n"
proof -
  obtain q e where q: "enqueue_all empty_queue (replicate n (ping, 7)) idle_env = Inr (q, e)"
    "fifo_inv q" "env_ok e" "queue_contents q = replicate n ping"
    using enqueue_all_appends[OF empty_queue_inv(3) idle_env_ok, of "replicate n (ping, 7)"] assms
    by (auto simp: empty_queue_inv)
  moreover have inv: "queue_inv q" using q(2) by (simp add: fifo_inv_def)
  moreover have "length (queue_contents q) = unat (q_size q)"
    using pq.drain_length[OF inv] by (simp add: queue_contents_def size_queue_nodes[OF inv])
  ultimately show ?thesis by (intro exI[of _ q] exI[of _ e]) simp
qed

text \<open>Three packets that can be told apart, with forward times out of order.\<close>

definition flagged :: "int \<Rightarrow> packet" where
  "flagged k = ping\<lparr>pk_flags := k\<rparr>"

definition three_packets :: "(packet \<times> u64) list" where
  "three_packets = [(flagged 0, 9), (flagged 1, 3), (flagged 2, 5)]"

lemma three_in_fifo:
  "\<exists>q e. enqueue_all empty_queue three_packets idle_env = Inr (q, e) \<and> fifo_inv q \<and>
     queue_contents q = [flagged 0, flagged 1, flagged 2]"
  using enqueue_all_appends[OF empty_queue_inv(3) idle_env_ok, of three_packets]
  by (auto simp: empty_queue_inv three_packets_def)

text \<open>Without FIFO mode every packet keeps the time asked for.\<close>

lemma enqueue_all_nodes:
  assumes "queue_inv q" "env_ok e" "unat (q_size q) + length pts \<le> 99" "q_fifoness q \<noteq> FIFO"
  shows "\<exists>q' e'. enqueue_all q pts e = Inr (q', e') \<and> queue_inv q' \<and> env_ok e' \<and>
    queue_nodes q' = queue_nodes q + mset (map (\<lambda>(p, t). \<lparr>qn_packet = Some p, qn_time = t, qn_counter = q_counter q\<rparr>) pts)"
  using assms
proof (induction pts arbitrary: q e)
  case (Cons pt pts)
  obtain p t where pt: "pt = (p, t)" by fastforce
  have room: "unat (q_size q) < 99" using Cons.prems(3) by simp
  have st: "fifo_stamp q t = (q, t)" using Cons.prems(4) by (simp add: fifo_stamp_def)
  obtain q1 e1 where r: "enqueue q p t e = Inr (q1, e1)" "queue_inv q1" "quiet e e1"
    "queue_nodes q1 = add_mset (new_node q p t) (queue_nodes q)" "q_size q1 = q_size q + 1"
    "q_counter q1 = q_counter q" "q_fifoness q1 = q_fifoness q"
    using enqueue_correct[OF Cons.prems(1,2) room, of p t] st by auto
  have "unat (q_size q1) = Suc (unat (q_size q))" using small_word_arith(1)[of "q_size q"] room r(5) by simp
  then have "\<exists>q' e'. enqueue_all q1 pts e1 = Inr (q', e') \<and> queue_inv q' \<and> env_ok e' \<and>
      queue_nodes q' = queue_nodes q1 + mset (map (\<lambda>(p, t). \<lparr>qn_packet = Some p, qn_time = t, qn_counter = q_counter q1\<rparr>) pts)"
    using Cons.prems r(2,7) quiet_ok[OF r(3)] by (intro Cons.IH) auto
  then show ?case using r(1,4,6) by (auto simp: pt new_node_def st)
qed simp

lemma sorted_three:
  assumes "mset ns = {#a, b, c#}" "sorted (map qn_time ns)" "qn_time b < qn_time c" "qn_time c < qn_time a"
  shows "ns = [b, c, a]"
proof -
  have "mset (map qn_time ns) = mset (map qn_time [b, c, a])" using assms(1) by (simp add: add_mset_commute)
  moreover have "sorted (map qn_time [b, c, a])" using assms(3,4) less_trans[OF assms(3,4)] by (simp add: less_imp_le)
  ultimately have "map qn_time ns = map qn_time [b, c, a]" using assms(2) by (metis properties_for_sort)
  moreover have "inj_on qn_time (set ns \<union> set [b, c, a])"
  proof -
    have "set ns = {a, b, c}" using assms(1) by (metis set_mset_mset set_mset_add_mset_insert set_mset_empty)
    then show ?thesis using assms(3,4) by (auto simp: inj_on_def)
  qed
  ultimately show ?thesis by (metis inj_on_map_eq_map)
qed

section \<open>Properties\<close>

text \<open>C4: \<open>enqueue\<close> keeps the heap, the size and the byte counters right and adds exactly the new
  packet, with its FIFO stamp; it may do so at most 99 times: with 99 packets queued the next
  insertion writes past the end of the array.\<close>

theorem enqueue_outcome:
  assumes "queue_inv q" "env_ok e"
  shows "if unat (q_size q) < 99
    then \<exists>q' e'. enqueue q p t e = Inr (q', e') \<and> queue_inv q' \<and> quiet e e' \<and>
      queue_nodes q' = add_mset (new_node q p t) (queue_nodes q) \<and> q_size q' = q_size q + 1
    else enqueue q p t e = Inl OutOfBounds"
proof (cases "unat (q_size q) < 99")
  case True
  then show ?thesis using enqueue_correct[OF assms True, of p t] by (simp only: if_True) blast
next
  case False
  then have "unat (q_size q) = 99" using queue_inv_size[OF assms(1)] by simp
  then show ?thesis using enqueue_overflows[OF assms] False by simp
qed

theorem enqueue_outcome_witness:
  "(\<exists>q' e'. enqueue empty_queue ping 7 idle_env = Inr (q', e') \<and> queue_inv q' \<and>
      queue_nodes q' = {#\<lparr>qn_packet = Some ping, qn_time = 7, qn_counter = 0\<rparr>#}) \<and>
   (\<exists>q e. enqueue_all empty_queue (replicate 99 (ping, 7)) idle_env = Inr (q, e) \<and>
      enqueue q ping 7 e = Inl OutOfBounds)"
proof
  show "\<exists>q' e'. enqueue empty_queue ping 7 idle_env = Inr (q', e') \<and> queue_inv q' \<and>
      queue_nodes q' = {#\<lparr>qn_packet = Some ping, qn_time = 7, qn_counter = 0\<rparr>#}"
    using enqueue_outcome[OF empty_queue_inv(1) idle_env_ok, of ping 7]
    by (auto simp: empty_queue_inv new_node_def) (simp add: fifo_stamp_def empty_queue_def FIFO_def)
  obtain q e where q: "enqueue_all empty_queue (replicate 99 (ping, 7)) idle_env = Inr (q, e)"
    "queue_inv q" "env_ok e" "unat (q_size q) = 99"
    using pings_queue[of 99] by auto
  then show "\<exists>q e. enqueue_all empty_queue (replicate 99 (ping, 7)) idle_env = Inr (q, e) \<and>
      enqueue q ping 7 e = Inl OutOfBounds"
    using enqueue_outcome[OF q(2,3), of ping 7] by auto
qed

text \<open>C5: \<open>dequeue\<close> returns \<open>NULL\<close> on an empty queue; otherwise it takes a packet with the least
  forward time (and counter) out and leaves a heap of the others, with the counters right.\<close>

theorem dequeue_outcome:
  assumes "queue_inv q"
  shows "if q_size q = 0 then dequeue q e = Inr (None, q, e)
    else \<exists>n p q'. dequeue q e = Inr (Some p, q', release e) \<and> qn_packet n = Some p \<and>
      queue_inv q' \<and> queue_nodes q = add_mset n (queue_nodes q') \<and>
      (\<forall>x \<in># queue_nodes q'. nkey n \<le> nkey x) \<and> nextQueueTime q = Inr (qn_time n) \<and>
      q_size q' = q_size q - 1"
proof (cases "q_size q = 0")
  case True
  then show ?thesis by (simp add: dequeue_def)
next
  case False
  then have "queue_nodes q \<noteq> {#}" using size_queue_nodes[OF assms] by (auto simp: unat_eq_zero)
  then show ?thesis using dequeue_correct[OF assms, of e] False by (simp only: if_False) blast
qed

theorem dequeue_outcome_witness:
  "\<exists>q e p q'. enqueue_all empty_queue (replicate 2 (ping, 7)) idle_env = Inr (q, e) \<and>
     dequeue q e = Inr (Some p, q', release e) \<and> queue_inv q' \<and> q_size q' = q_size q - 1"
proof -
  obtain q e where q: "enqueue_all empty_queue (replicate 2 (ping, 7)) idle_env = Inr (q, e)"
    "queue_inv q" "unat (q_size q) = 2"
    using pings_queue[of 2] by auto
  have "q_size q \<noteq> 0" using q(3) by auto
  then show ?thesis using dequeue_outcome[OF q(2), of e] q(1) by auto
qed

text \<open>C3: in FIFO mode a burst of up to 99 packets leaves the queue in the order in which it came
  in, whatever the forward times asked for.\<close>

theorem fifo_order:
  assumes "initQueue FIFO q e = (0, q0, e0)" "env_ok e0" "length pts \<le> 99"
  shows "\<exists>q1 e1 q2 e2. enqueue_all q0 pts e0 = Inr (q1, e1) \<and>
    dequeue_all (length pts) q1 e1 = Inr (map fst pts, q2, e2) \<and> q_size q2 = 0"
  by (rule fifo_burst[OF assms])

theorem fifo_order_witness:
  "\<exists>q0 e0 q1 e1 q2 e2. initQueue FIFO empty_queue idle_env = (0, q0, e0) \<and>
     enqueue_all q0 [(ping, 9), (ping\<lparr>pk_flags := 1\<rparr>, 3)] e0 = Inr (q1, e1) \<and>
     dequeue_all 2 q1 e1 = Inr ([ping, ping\<lparr>pk_flags := 1\<rparr>], q2, e2)"
proof -
  obtain q0 e0 where i: "initQueue FIFO empty_queue idle_env = (0, q0, e0)" "env_ok e0"
    using idle_env_ok
    by (auto simp: initQueue_def syscall_def Let_def idle_env_def env_ok_def clock_ok_def memory_ok_def calls_ok_def)
  from fifo_order[OF i, of "[(ping, 9), (ping\<lparr>pk_flags := 1\<rparr>, 3)]"] i(1) show ?thesis
    by (auto simp: numeral_2_eq_2)
qed

text \<open>C23: in every mode the packets leave in the order of their keys: repeated removal empties the
  queue and is sorted by forward time first.\<close>

theorem removal_sorted:
  assumes "queue_inv q"
  shows "\<exists>ns. queue_contents q = map node_packet ns \<and> mset ns = queue_nodes q \<and>
    sorted (map nkey ns) \<and> sorted (map qn_time ns)"
proof -
  obtain ns where ns: "queue_contents q = map node_packet ns" "mset ns = queue_nodes q"
    "sorted (map nkey ns)"
    using contents_sorted[OF assms] by blast
  have "sorted (map qn_time ns)"
    using ns(3)
    by (simp add: sorted_iff_nth_mono less_eq_qkey_def less_qkey_def nkey_def) (metis order_le_less)
  with ns show ?thesis by blast
qed

theorem removal_sorted_witness:
  "\<exists>q e. enqueue_all (empty_queue\<lparr>q_fifoness := NO_FIFO\<rparr>) three_packets idle_env = Inr (q, e) \<and>
     queue_contents q = [flagged 1, flagged 2, flagged 0]"
proof -
  let ?node = "\<lambda>k t. \<lparr>qn_packet = Some (flagged k), qn_time = t, qn_counter = 0\<rparr>"
  have e: "queue_inv (empty_queue\<lparr>q_fifoness := NO_FIFO\<rparr>)" "queue_nodes (empty_queue\<lparr>q_fifoness := NO_FIFO\<rparr>) = {#}"
    by (simp_all add: empty_queue_def queue_inv_def queue_nodes_def)
  obtain q e where q: "enqueue_all (empty_queue\<lparr>q_fifoness := NO_FIFO\<rparr>) three_packets idle_env = Inr (q, e)"
    "queue_inv q" "queue_nodes q = {#?node 0 9, ?node 1 3, ?node 2 5#}"
    using enqueue_all_nodes[OF e(1) idle_env_ok, of three_packets] e(2)
    by (auto simp: three_packets_def empty_queue_def FIFO_def NO_FIFO_def)
  obtain ns where ns: "queue_contents q = map node_packet ns" "mset ns = queue_nodes q" "sorted (map qn_time ns)"
    using removal_sorted[OF q(2)] by blast
  have "ns = [?node 1 3, ?node 2 5, ?node 0 9]"
    by (rule sorted_three[OF _ ns(3)]) (simp_all add: ns(2) q(3))
  then show ?thesis using q(1) ns(1) by (simp add: node_packet_def)
qed

text \<open>C21: seen as a list, the queue in FIFO mode is an ordinary FIFO: insertion appends.\<close>

theorem enqueue_fifo:
  assumes "fifo_inv q" "env_ok e" "unat (q_size q) < 99" "stamp_free q t"
  shows "\<exists>q' e'. enqueue q p t e = Inr (q', e') \<and> fifo_inv q' \<and>
    queue_contents q' = queue_contents q @ [p]"
  by (rule enqueue_appends[OF assms])

theorem enqueue_fifo_witness:
  "\<exists>q' e'. enqueue empty_queue ping 7 idle_env = Inr (q', e') \<and> queue_contents q' = [ping]"
  using enqueue_fifo[OF empty_queue_inv(3) idle_env_ok, of 7 ping]
  by (auto simp: empty_queue_inv stamp_free_def)

text \<open>C22: seen as a list, the queue in FIFO mode is an ordinary FIFO: what is queued, listed by the
  stamps in the array, is the order of removal, and \<open>dequeue\<close> takes the head of that list and
  leaves the rest of it.\<close>

theorem dequeue_fifo:
  assumes "fifo_inv q" "by_key q = n # ns"
  shows "queue_contents q = map node_packet (n # ns) \<and>
    (\<exists>q'. dequeue q e = Inr (Some (node_packet n), q', release e) \<and> fifo_inv q' \<and> by_key q' = ns \<and>
      queue_contents q' = map node_packet ns)"
proof -
  obtain q' p where d: "dequeue q e = Inr (Some p, q', release e)" "qn_packet n = Some p" "fifo_inv q'" "by_key q' = ns"
    using dequeue_by_key[OF assms, of e] by blast
  moreover have "node_packet n = p" using d(2) by (simp add: node_packet_def)
  ultimately show ?thesis using by_key_contents[OF assms(1)] by_key_contents[OF d(3)] assms(2) by simp
qed

theorem dequeue_fifo_witness:
  "\<exists>q e q'. enqueue_all empty_queue three_packets idle_env = Inr (q, e) \<and>
     dequeue q e = Inr (Some (flagged 0), q', release e) \<and> queue_contents q' = [flagged 1, flagged 2]"
proof -
  obtain q e where q: "enqueue_all empty_queue three_packets idle_env = Inr (q, e)" "fifo_inv q"
    "queue_contents q = [flagged 0, flagged 1, flagged 2]"
    using three_in_fifo by blast
  obtain n ns where n: "by_key q = n # ns" using q(3) by_key_contents[OF q(2)] by (cases "by_key q") auto
  have "node_packet n = flagged 0" "map node_packet ns = [flagged 1, flagged 2]"
    using q(3) dequeue_fifo[OF q(2) n, of e] by auto
  then show ?thesis using dequeue_fifo[OF q(2) n, of e] q(1) by auto
qed

text \<open>C24: the queue timer is armed once, for the time left until the first packet is due, or for
  one nanosecond when that time has passed; seconds and nanoseconds are split correctly and the
  time is never zero, which would disarm the timer.\<close>

theorem queue_timer_armed:
  assumes "queue_inv q" "queue_nodes q \<noteq> {#}" "env_ok e"
    "nextQueueTime q = Inr next" "uint next < 2 ^ 63"
  shows "\<exists>now e1 s n e'. now_ns e = Inr (now, e1) \<and> setQueueTimer q e = Inr e' \<and>
    e_trace e' = e_trace e @ [SetTime (q_timerfd q) s n] \<and> 0 \<le> s \<and> 0 \<le> n \<and> n < 1000000000 \<and>
    s * 1000000000 + n = max 1 (uint next - uint now)"
  by (rule setQueueTimer_arms[OF assms])

theorem queue_timer_armed_witness:
  "\<exists>q e e' s n. enqueue empty_queue ping 7 idle_env = Inr (q, e) \<and> setQueueTimer q e = Inr e' \<and>
     e_trace e' = e_trace e @ [SetTime (q_timerfd q) s n] \<and> 0 < s * 1000000000 + n"
proof -
  obtain q e where q: "enqueue empty_queue ping 7 idle_env = Inr (q, e)" "queue_inv q" "quiet idle_env e"
    "queue_nodes q = {#new_node empty_queue ping 7#}"
    using enqueue_correct[OF empty_queue_inv(1) idle_env_ok, of ping 7] by (auto simp: empty_queue_inv)
  have n: "qn_time (new_node empty_queue ping 7) = 7"
    by (simp add: new_node_def fifo_stamp_def empty_queue_def FIFO_def)
  have ne: "queue_nodes q \<noteq> {#}" using q(4) by simp
  have "nextQueueTime q = Inr 7"
    using dequeue_correct[OF q(2) ne] q(4) n by (auto simp: add_eq_conv_ex)
  moreover have "env_ok e" using quiet_ok[OF q(3)] idle_env_ok by simp
  ultimately show ?thesis using queue_timer_armed[OF q(2) ne, of e 7] q(1) by fastforce
qed

end
