(* ===== verification/Wire.thy ===== *)
theory Wire
  imports Packet
begin

text \<open>
  The values that describe the wire (first half of \<open>includes/wf_markov.h\<close> and the value functions
  of \<open>includes/wf_markov.c\<close>). Every node of the Markov chain has, for each tag and direction, a
  value, a variation and the distribution of the variation. \<open>log\<close> and \<open>sqrt\<close> of the C library
  are parameters of the functions that draw a normally distributed value.
\<close>

section \<open>Data\<close>

datatype tag = DELAY | DUP | LOSS | BURSTYLOSS | MTU | CHANBUFSIZE | BANDWIDTH | SPEED | NOISE

definition ALGO_UNIFORM :: byte where
  "ALGO_UNIFORM = 0"

definition ALGO_GAUSS_NORMAL :: byte where
  "ALGO_GAUSS_NORMAL = 1"

definition WF_SIGMA :: double where
  "WF_SIGMA = d_div (Fin 1) (Fin 3)"

definition KILO :: int where
  "KILO = 1024"

definition MEGA :: int where
  "MEGA = 1048576"

definition GIGA :: int where
  "GIGA = 1073741824"

record wire_value =
  wv_value :: double
  wv_plus :: double
  wv_algorithm :: byte

record markov_node =
  mn_name :: "string option"
  mn_value :: "tag \<Rightarrow> dir \<Rightarrow> wire_value"

text \<open>A node as \<open>calloc\<close> makes it.\<close>

definition zero_value :: wire_value where
  "zero_value = \<lparr>wv_value = Fin 0, wv_plus = Fin 0, wv_algorithm = 0\<rparr>"

definition zero_node :: markov_node where
  "zero_node = \<lparr>mn_name = None, mn_value = (\<lambda>_ _. zero_value)\<rparr>"

record libm =
  lm_log :: "double \<Rightarrow> double"
  lm_sqrt :: "double \<Rightarrow> double"

section \<open>Reading a value\<close>

definition maxWireValue :: "markov_node \<Rightarrow> tag \<Rightarrow> dir \<Rightarrow> double" where
  "maxWireValue node tag direction =
     d_add (wv_value (mn_value node tag direction)) (wv_plus (mn_value node tag direction))"

definition minWireValue :: "markov_node \<Rightarrow> tag \<Rightarrow> dir \<Rightarrow> double" where
  "minWireValue node tag direction =
     d_sub (wv_value (mn_value node tag direction)) (wv_plus (mn_value node tag direction))"

text \<open>
  Rejection sampling of a point in the unit disc; the result is the abscissa and the square of
  the distance from the centre.
\<close>

partial_function (option) gauss_point :: "rng \<Rightarrow> (double \<times> double \<times> rng) option" where
  "gauss_point s =
     (let (u, s) = drand48 s;
          x = d_sub (d_mul (Fin 2) u) (Fin 1);
          (v, s) = drand48 s;
          y = d_sub (d_mul (Fin 2) v) (Fin 1);
          r2 = d_add (d_mul x x) (d_mul y y)
      in if d_le (Fin 1) r2 then gauss_point s else Some (x, r2, s))"

definition computeWireValue ::
  "libm \<Rightarrow> markov_node \<Rightarrow> tag \<Rightarrow> dir \<Rightarrow> rng \<Rightarrow> (double \<times> rng) res" where
  "computeWireValue m node tag direction s =
     (let wv = mn_value node tag direction
      in if d_eq (wv_plus wv) (Fin 0) then Inr (wv_value wv, s)
         else if wv_algorithm wv = ALGO_UNIFORM then
           let (u, s) = drand48 s
           in Inr (d_add (wv_value wv)
                     (d_mul (wv_plus wv) (d_sub (d_mul u (Fin 2)) (Fin 1))), s)
         else if wv_algorithm wv = ALGO_GAUSS_NORMAL then
           case gauss_point s of
             None \<Rightarrow> Inl Diverges
           | Some (x, r2, s) \<Rightarrow>
               Inr (d_add (wv_value wv)
                      (d_mul (d_mul (d_mul (wv_plus wv) WF_SIGMA) x)
                         (lm_sqrt m (d_div (d_mul (Fin (- 2)) (lm_log m r2)) r2))), s)
         else Inr (Fin 0, s))"

section \<open>The sampling loop ends\<close>

definition two_steps :: "rng \<Rightarrow> rng" where
  "two_steps s = rng_step (rng_step s)"

definition disc_hit :: "rng \<Rightarrow> bool" where
  "disc_hit s \<longleftrightarrow>
     (let x = d_sub (d_mul (Fin 2) (Fin (rng_val (rng_step s)))) (Fin 1);
          y = d_sub (d_mul (Fin 2) (Fin (rng_val (two_steps s)))) (Fin 1)
      in \<not> d_le (Fin 1) (d_add (d_mul x x) (d_mul y y)))"

lemma gauss_point_step:
  "gauss_point s =
     (if disc_hit s
      then let x = d_sub (d_mul (Fin 2) (Fin (rng_val (rng_step s)))) (Fin 1);
               y = d_sub (d_mul (Fin 2) (Fin (rng_val (two_steps s)))) (Fin 1)
           in Some (x, d_add (d_mul x x) (d_mul y y), two_steps s)
      else gauss_point (two_steps s))"
  by (subst gauss_point.simps) (simp add: drand48_def disc_hit_def two_steps_def Let_def)

text \<open>\<open>2 * drand48() - 1\<close> is exact and lies in \<open>[- 1, 1)\<close>.\<close>

lemma rng_val_dyadic: "2 * rng_val s = of_int (2 * uint s) / 281474976710656"
  "2 * rng_val s - 1 = of_int (2 * uint s - 281474976710656) / 281474976710656"
  by (simp_all add: rng_val_def diff_divide_distrib)

lemma centred:
  "d_mul (Fin 2) (Fin (rng_val s)) = to_double False (2 * rng_val s)"
  "d_mul (Fin (rng_val s)) (Fin 2) = to_double False (2 * rng_val s)"
  "fin (d_sub (to_double False (2 * rng_val s)) (Fin 1))"
  "val (d_sub (to_double False (2 * rng_val s)) (Fin 1)) = 2 * rng_val s - 1"
proof -
  note b = uint_rng_bounds[of s] rng_val_bounds[of s]
  have nn: "\<not> rng_val s < 0" using b(3) by simp
  then show "d_mul (Fin 2) (Fin (rng_val s)) = to_double False (2 * rng_val s)"
    "d_mul (Fin (rng_val s)) (Fin 2) = to_double False (2 * rng_val s)"
    by (simp_all add: dbl_simps mult.commute)
  have "rnd (2 * rng_val s) = 2 * rng_val s"
    unfolding rng_val_dyadic(1) using b by (intro dyadic48_exact) simp
  moreover have "\<bar>2 * rng_val s\<bar> < dlimit"
    using b by (intro small_lt_limit[of _ 1]) simp_all
  ultimately have u: "fin (to_double False (2 * rng_val s))"
    "val (to_double False (2 * rng_val s)) = 2 * rng_val s"
    by (simp_all add: dbl_simps)
  have "\<bar>2 * uint s - 281474976710656\<bar> \<le> 281474976710656" using b(1,2) by linarith
  then have "\<bar>2 * uint s - 281474976710656\<bar> \<le> 2 ^ 53" by simp
  then have "rnd (2 * rng_val s - 1) = 2 * rng_val s - 1"
    unfolding rng_val_dyadic(2) by (rule dyadic48_exact)
  moreover have "\<bar>2 * rng_val s - 1\<bar> < dlimit"
    using b by (intro small_lt_limit[of _ 1]) simp_all
  ultimately show "fin (d_sub (to_double False (2 * rng_val s)) (Fin 1))"
    "val (d_sub (to_double False (2 * rng_val s)) (Fin 1)) = 2 * rng_val s - 1"
    using u by (simp_all add: dbl_simps)
qed

lemma rnd_quarter: "rnd (1 / 4) = 1 / 4"
  by (rule rnd_exact[of _ 1 "- 2"]) (simp_all add: power_int_minus)

lemma rnd_half: "rnd (1 / 2) = 1 / 2"
  by (rule rnd_exact[of _ 1 "- 1"]) (simp_all add: power_int_minus)

lemma small_square:
  assumes "fin x" "\<bar>val x\<bar> \<le> 1 / 2"
  shows "fin (d_mul x x)" "0 \<le> val (d_mul x x)" "val (d_mul x x) \<le> 1 / 4"
proof -
  have "val x * val x \<le> 1 / 4" using assms(2) abs_mult_pos[of "val x"] mult_mono[OF assms(2) assms(2)] by simp
  then have r: "0 \<le> rnd (val x * val x)" "rnd (val x * val x) \<le> 1 / 4"
    by (simp add: rnd_pos, intro rnd_le rnd_quarter)
  moreover have "\<bar>rnd (val x * val x)\<bar> < dlimit"
    using r by (intro small_lt_limit[of _ 0]) simp_all
  ultimately show "fin (d_mul x x)" "0 \<le> val (d_mul x x)" "val (d_mul x x) \<le> 1 / 4"
    using assms(1) by (simp_all add: dbl_simps)
qed

lemma centre_hits:
  assumes "\<bar>2 * rng_val (rng_step s) - 1\<bar> \<le> 1 / 2" "\<bar>2 * rng_val (two_steps s) - 1\<bar> \<le> 1 / 2"
  shows "disc_hit s"
proof -
  let ?x = "d_sub (to_double False (2 * rng_val (rng_step s))) (Fin 1)"
  let ?y = "d_sub (to_double False (2 * rng_val (two_steps s))) (Fin 1)"
  have x: "fin ?x" "\<bar>val ?x\<bar> \<le> 1 / 2" and y: "fin ?y" "\<bar>val ?y\<bar> \<le> 1 / 2"
    using assms by (simp_all add: centred)
  note sq = small_square[OF x] small_square[OF y]
  have "val (d_mul ?x ?x) + val (d_mul ?y ?y) \<le> 1 / 2" using sq by linarith
  then have r: "0 \<le> rnd (val (d_mul ?x ?x) + val (d_mul ?y ?y))"
    "rnd (val (d_mul ?x ?x) + val (d_mul ?y ?y)) \<le> 1 / 2"
    using sq by (simp add: rnd_pos, intro rnd_le rnd_half)
  moreover have "\<bar>rnd (val (d_mul ?x ?x) + val (d_mul ?y ?y))\<bar> < dlimit"
    using r by (intro small_lt_limit[of _ 0]) simp_all
  ultimately have "fin (d_add (d_mul ?x ?x) (d_mul ?y ?y))"
    "val (d_add (d_mul ?x ?x) (d_mul ?y ?y)) \<le> 1 / 2"
    using sq by (simp_all add: dbl_simps)
  then show ?thesis unfolding disc_hit_def Let_def centred(1) by (simp add: dbl_simps)
qed

text \<open>
  One state of each parity from which the next point is near the centre; as the generator
  visits all states of one parity two steps at a time, a hit comes after finitely many draws.
\<close>

lemma disc_hit_targets: "disc_hit 212465221713422" "disc_hit 247785492720297"
  by (rule centre_hits; simp add: two_steps_def rng_step_def rng_val_def)+

lemma disc_hit_reached: "\<exists>n. disc_hit ((two_steps ^^ n) s)"
proof -
  have "\<exists>t. disc_hit t \<and> (odd s \<longleftrightarrow> odd t)"
    using disc_hit_targets by (cases "odd s") (auto intro: exI[of _ 247785492720297] exI[of _ 212465221713422])
  then obtain t where t: "disc_hit t" "odd s \<longleftrightarrow> odd t" by blast
  then show ?thesis using rng_two_step[OF t(2)] unfolding two_steps_def by metis
qed

lemma gauss_point_total: "\<exists>p. gauss_point s = Some p"
proof -
  obtain n where "disc_hit ((two_steps ^^ n) s)" using disc_hit_reached by blast
  then show ?thesis
  proof (induction n arbitrary: s)
    case 0
    then show ?case by (subst gauss_point_step) (simp add: Let_def)
  next
    case (Suc n)
    then have "disc_hit ((two_steps ^^ n) (two_steps s))" by (simp add: funpow_swap1)
    then obtain p where "gauss_point (two_steps s) = Some p" using Suc.IH by blast
    then show ?case using gauss_point_step[of s] by (cases p; cases "disc_hit s") (simp_all add: Let_def)
  qed
qed

section \<open>The range of a uniform value\<close>

text \<open>
  The wire value drawn by the uniform algorithm lies between the minimum and the maximum of the
  node, rounding included: every operation rounds monotonically, and the bounds are doubles.
\<close>

lemma scaled_unit:
  assumes "is_double p" "fin p" "0 < val p" "fin c" "- 1 \<le> val c" "val c < 1"
  shows "fin (d_mul p c)" "- val p \<le> val (d_mul p c)" "val (d_mul p c) \<le> val p"
proof -
  have rp: "rnd (val p) = val p" "\<bar>val p\<bar> < dlimit" using assms(1,2) by (simp_all add: is_double_val)
  have "val p * val c \<le> val p" "- val p \<le> val p * val c"
    using assms(3,5,6) mult_left_mono[of "val c" 1 "val p"] mult_left_mono[of "- 1" "val c" "val p"] by simp_all
  then have r: "rnd (val p * val c) \<le> val p" "- val p \<le> rnd (val p * val c)"
    using rp(1) by (simp add: rnd_le, intro rnd_ge) (simp_all add: rnd_minus)
  then have "\<bar>rnd (val p * val c)\<bar> < dlimit" using rp(2) by linarith
  then show "fin (d_mul p c)" "- val p \<le> val (d_mul p c)" "val (d_mul p c) \<le> val p"
    using assms(2,4) r by (simp_all add: dbl_simps)
qed

lemma d_add_mono:
  assumes "fin a" "fin b" "fin c" "val b \<le> val c"
  shows "d_le (d_add a b) (d_add a c)"
  using assms by (simp add: d_add_fin to_double_mono)

lemma compute_uniform:
  assumes "wv_algorithm (mn_value node tag direction) = ALGO_UNIFORM"
    and "\<not> d_eq (wv_plus (mn_value node tag direction)) (Fin 0)"
  shows "computeWireValue m node tag direction s =
           Inr (d_add (wv_value (mn_value node tag direction))
                  (d_mul (wv_plus (mn_value node tag direction))
                     (d_sub (d_mul (Fin (rng_val (rng_step s))) (Fin 2)) (Fin 1))), rng_step s)"
  using assms by (simp add: computeWireValue_def drand48_def Let_def)

lemma compute_constant:
  "d_eq (wv_plus (mn_value node tag direction)) (Fin 0) \<Longrightarrow>
     computeWireValue m node tag direction s = Inr (wv_value (mn_value node tag direction), s)"
  by (simp add: computeWireValue_def)

lemma compute_total: "\<exists>x s'. computeWireValue m node tag direction s = Inr (x, s')"
proof -
  obtain x r2 s' where "gauss_point s = Some (x, r2, s')" using gauss_point_total[of s] by (metis prod_cases3)
  then show ?thesis by (simp add: computeWireValue_def drand48_def Let_def)
qed

lemma uniform_within:
  assumes "is_double (wv_plus (mn_value node tag direction))"
    and "fin (wv_plus (mn_value node tag direction))" "fin (wv_value (mn_value node tag direction))"
    and "0 < val (wv_plus (mn_value node tag direction))"
    and "wv_algorithm (mn_value node tag direction) = ALGO_UNIFORM"
    and c: "computeWireValue m node tag direction s = Inr (x, s')"
  shows "d_le (minWireValue node tag direction) x" "d_le x (maxWireValue node tag direction)"
proof -
  let ?v = "wv_value (mn_value node tag direction)" and ?p = "wv_plus (mn_value node tag direction)"
  let ?c = "d_sub (d_mul (Fin (rng_val (rng_step s))) (Fin 2)) (Fin 1)"
  have "fin ?c" "- 1 \<le> val ?c" "val ?c < 1"
    using rng_val_bounds[of "rng_step s"] rng_val_less_1[of "rng_step s"] by (simp_all add: centred)
  note sc = scaled_unit[OF assms(1,2,4) this]
  have "\<not> d_eq ?p (Fin 0)" using assms(2,4) by (simp add: dbl_simps)
  then have x: "x = d_add ?v (d_mul ?p ?c)" using compute_uniform[of node tag direction m s] assms(5) c by simp
  show "d_le x (maxWireValue node tag direction)"
    unfolding x maxWireValue_def using assms(2,3) sc by (intro d_add_mono) simp_all
  show "d_le (minWireValue node tag direction) x"
    unfolding x minWireValue_def d_sub_def[of ?v] using assms(2,3) sc by (intro d_add_mono) simp_all
qed

section \<open>Properties\<close>

definition jitter_node :: markov_node where
  "jitter_node = zero_node\<lparr>mn_value :=
     (\<lambda>_ _. \<lparr>wv_value = Fin 10, wv_plus = Fin 5, wv_algorithm = ALGO_UNIFORM\<rparr>)\<rparr>"

definition idle_libm :: libm where
  "idle_libm = \<lparr>lm_log = (\<lambda>x. x), lm_sqrt = (\<lambda>x. x)\<rparr>"

text \<open>C37: reading a wire value always returns, whatever the node, the algorithm and the state of the
  generator; in particular the rejection sampling of the normal distribution ends.\<close>

theorem wire_value_drawn: "\<exists>x s'. computeWireValue m node tag direction s = Inr (x, s')"
  by (rule compute_total)

text \<open>C38: a uniformly distributed value lies between the minimum and the maximum of the node, with
  every rounding of the computation included.\<close>

theorem uniform_value_in_range:
  assumes "is_double (wv_plus (mn_value node tag direction))"
    and "fin (wv_plus (mn_value node tag direction))" "fin (wv_value (mn_value node tag direction))"
    and "0 < val (wv_plus (mn_value node tag direction))"
    and "wv_algorithm (mn_value node tag direction) = ALGO_UNIFORM"
  shows "\<exists>x s'. computeWireValue m node tag direction s = Inr (x, s') \<and>
    d_le (minWireValue node tag direction) x \<and> d_le x (maxWireValue node tag direction)"
  using compute_total[of m node tag direction s] uniform_within[OF assms] by metis

theorem uniform_value_in_range_witness:
  "\<exists>x s'. computeWireValue idle_libm jitter_node DELAY LEFT_TO_RIGHT 0 = Inr (x, s') \<and>
     d_le (minWireValue jitter_node DELAY LEFT_TO_RIGHT) x \<and>
     d_le x (maxWireValue jitter_node DELAY LEFT_TO_RIGHT)"
proof -
  have "is_double (Fin 5)"
    using small_lt_limit[of 5 3] rnd_of_int[of 5] by (simp add: is_double_def)
  then show ?thesis
    using uniform_value_in_range[of jitter_node DELAY LEFT_TO_RIGHT idle_libm 0]
    by (simp add: ALGO_UNIFORM_def jitter_node_def)
qed

end
