(* ===== verification/Scan.thy ===== *)
theory Scan
  imports Double
begin

text \<open>
  What the plugin uses of \<open>sscanf\<close>, \<open>atoi\<close>, \<open>atoll\<close> and \<open>printf\<close>: conversions of decimal
  integers and of floating-point numbers in the "C" locale. An input item is the longest
  sequence of characters that is, or is a prefix of, a matching sequence; the conversion fails
  when that item does not match as a whole. An integer the type cannot hold is undefined
  behaviour.
\<close>

section \<open>Characters\<close>

definition char_code :: "char \<Rightarrow> int" where
  "char_code c = of_char c"

definition isspace :: "char \<Rightarrow> bool" where
  "isspace c \<longleftrightarrow> c = CHR '' '' \<or> 9 \<le> char_code c \<and> char_code c \<le> 13"

definition isdigit :: "char \<Rightarrow> bool" where
  "isdigit c \<longleftrightarrow> 48 \<le> char_code c \<and> char_code c \<le> 57"

definition tolower :: "char \<Rightarrow> char" where
  "tolower c = (if 65 \<le> char_code c \<and> char_code c \<le> 90 then char_of (char_code c + 32) else c)"

text \<open>The value of a digit in a base up to 16.\<close>

definition digit :: "int \<Rightarrow> char \<Rightarrow> int option" where
  "digit base c =
     (let d = (if isdigit c then char_code c - 48
               else if 97 \<le> char_code (tolower c) \<and> char_code (tolower c) \<le> 102
               then char_code (tolower c) - 87 else 16)
      in if d < base then Some d else None)"

text \<open>The longest run of digits: their number, their value after a prefix, and the rest.\<close>

fun digits :: "int \<Rightarrow> int \<Rightarrow> string \<Rightarrow> nat \<times> int \<times> string" where
  "digits base acc [] = (0, acc, [])"
| "digits base acc (c # cs) =
     (case digit base c of
        None \<Rightarrow> (0, acc, c # cs)
      | Some d \<Rightarrow> let (n, v, r) = digits base (acc * base + d) cs in (Suc n, v, r))"

fun sign :: "string \<Rightarrow> bool \<times> string" where
  "sign [] = (False, [])"
| "sign (c # cs) = (if c = CHR ''-'' then (True, cs) else if c = CHR ''+'' then (False, cs)
     else (False, c # cs))"

section \<open>Integers\<close>

text \<open>The number at the start of a string, if there is one, and the rest.\<close>

definition scan_number :: "int \<Rightarrow> string \<Rightarrow> (int \<times> string) option" where
  "scan_number base s =
     (let (neg, s) = sign (dropWhile isspace s);
          (n, v, r) = digits base 0 s
      in if n = 0 then None else Some (if neg then - v else v, r))"

definition scan_int :: "string \<Rightarrow> (int \<times> string) option res" where
  "scan_int s =
     (case scan_number 10 s of
        None \<Rightarrow> Inr None
      | Some (v, r) \<Rightarrow> if INT_MIN \<le> v \<and> v \<le> INT_MAX then Inr (Some (v, r)) else Inl BadConversion)"

definition atoi :: "string \<Rightarrow> int res" where
  "atoi s =
     (case scan_number 10 s of
        None \<Rightarrow> Inr 0
      | Some (v, r) \<Rightarrow> if INT_MIN \<le> v \<and> v \<le> INT_MAX then Inr v else Inl BadConversion)"

definition atoll :: "string \<Rightarrow> int res" where
  "atoll s =
     (case scan_number 10 s of
        None \<Rightarrow> Inr 0
      | Some (v, r) \<Rightarrow> if - (2 ^ 63) \<le> v \<and> v < 2 ^ 63 then Inr v else Inl BadConversion)"

section \<open>Floating-point numbers\<close>

text \<open>
  The exponent part: after the marker a sign and digits must follow. \<open>None\<close> is a marker
  without digits, which makes the whole item fail.
\<close>

definition exponent :: "char \<Rightarrow> string \<Rightarrow> (int \<times> string) option" where
  "exponent marker s =
     (case s of
        [] \<Rightarrow> Some (0, [])
      | c # cs \<Rightarrow>
          if tolower c = marker then
            let (neg, r) = sign cs; (n, v, r) = digits 10 0 r
            in if n = 0 then None else Some (if neg then - v else v, r)
          else Some (0, s))"

text \<open>Digits with an optional point: value, number of digits after the point, rest.\<close>

definition mantissa :: "int \<Rightarrow> string \<Rightarrow> (int \<times> nat \<times> string) option" where
  "mantissa base s =
     (let (n, v, r) = digits base 0 s
      in case r of
           [] \<Rightarrow> if n = 0 then None else Some (v, 0, r)
         | c # cs \<Rightarrow>
             if c = CHR ''.'' then
               let (m, w, r') = digits base v cs
               in if n + m = 0 then None else Some (w, m, r')
             else if n = 0 then None else Some (v, 0, r))"

definition scan_decimal :: "bool \<Rightarrow> string \<Rightarrow> (double \<times> string) option" where
  "scan_decimal neg s =
     (case mantissa 10 s of
        None \<Rightarrow> None
      | Some (w, m, r) \<Rightarrow>
          (case exponent (CHR ''e'') r of
             None \<Rightarrow> None
           | Some (x, r) \<Rightarrow>
               let v = of_int w * 10 powi (x - int m)
               in Some (to_double neg (if neg then - v else v), r)))"

definition scan_hex :: "bool \<Rightarrow> string \<Rightarrow> (double \<times> string) option" where
  "scan_hex neg s =
     (case mantissa 16 s of
        None \<Rightarrow> None
      | Some (w, m, r) \<Rightarrow>
          (case exponent (CHR ''p'') r of
             None \<Rightarrow> None
           | Some (x, r) \<Rightarrow>
               let v = of_int w * 2 powi (x - 4 * int m)
               in Some (to_double neg (if neg then - v else v), r)))"

text \<open>The longest common prefix with a word in lower case, and what follows it.\<close>

fun word_prefix :: "string \<Rightarrow> string \<Rightarrow> nat \<times> string" where
  "word_prefix (w # ws) (c # cs) =
     (if tolower c = w then let (n, r) = word_prefix ws cs in (Suc n, r) else (0, c # cs))"
| "word_prefix _ cs = (0, cs)"

definition scan_nan :: "string \<Rightarrow> (double \<times> string) option" where
  "scan_nan s =
     (let (n, r) = word_prefix ''nan'' s
      in if n \<noteq> 3 then None
         else case r of
           [] \<Rightarrow> Some (NaN, r)
         | c # cs \<Rightarrow>
             if c \<noteq> CHR ''('' then Some (NaN, r)
             else (case dropWhile (\<lambda>c. isdigit c \<or> c = CHR ''_''
                      \<or> 97 \<le> char_code (tolower c) \<and> char_code (tolower c) \<le> 122) cs of
                    [] \<Rightarrow> None
                  | d # ds \<Rightarrow> if d = CHR '')'' then Some (NaN, ds) else None))"

definition scan_infinity :: "bool \<Rightarrow> string \<Rightarrow> (double \<times> string) option" where
  "scan_infinity neg s =
     (let (n, r) = word_prefix ''infinity'' s
      in if n = 3 \<or> n = 8 then Some (inf_d neg, r) else None)"

definition scan_double :: "string \<Rightarrow> (double \<times> string) option" where
  "scan_double s =
     (let (neg, s) = sign (dropWhile isspace s)
      in case s of
           [] \<Rightarrow> None
         | c # cs \<Rightarrow>
             if tolower c = CHR ''i'' then scan_infinity neg s
             else if tolower c = CHR ''n'' then scan_nan s
             else if c = CHR ''0'' \<and> cs \<noteq> [] \<and> tolower (hd cs) = CHR ''x'' then scan_hex neg (tl cs)
             else scan_decimal neg s)"

section \<open>The formats in use\<close>

text \<open>A character of the format that is not a conversion matches itself only.\<close>

definition literal :: "char \<Rightarrow> string \<Rightarrow> string option" where
  "literal c s = (case s of [] \<Rightarrow> None | d # ds \<Rightarrow> if d = c then Some ds else None)"

text \<open>\<open>sscanf(s, "%lf+%lf", ...)\<close>: what each of the two conversions assigns, if it is reached.\<close>

definition sscanf_value_plus :: "string \<Rightarrow> double option \<times> double option" where
  "sscanf_value_plus s =
     (case scan_double s of
        None \<Rightarrow> (None, None)
      | Some (v, r) \<Rightarrow>
          (Some v, case literal (CHR ''+'') r of
                     None \<Rightarrow> None
                   | Some r \<Rightarrow> map_option fst (scan_double r)))"

text \<open>\<open>sscanf(s, "%d,%d,%lf", ...)\<close>.\<close>

definition sscanf_edge :: "string \<Rightarrow> (int option \<times> int option \<times> double option) res" where
  "sscanf_edge s =
     rbind (scan_int s) (\<lambda>a.
       case a of
         None \<Rightarrow> Inr (None, None, None)
       | Some (i, r) \<Rightarrow>
           (case literal (CHR '','') r of
              None \<Rightarrow> Inr (Some i, None, None)
            | Some r \<Rightarrow>
                rbind (scan_int r) (\<lambda>b.
                  case b of
                    None \<Rightarrow> Inr (Some i, None, None)
                  | Some (j, r) \<Rightarrow>
                      (case literal (CHR '','') r of
                         None \<Rightarrow> Inr (Some i, Some j, None)
                       | Some r \<Rightarrow> Inr (Some i, Some j, map_option fst (scan_double r))))))"

text \<open>\<open>sscanf(s, "%o", ...)\<close> into an \<open>unsigned int\<close>.\<close>

definition sscanf_octal :: "string \<Rightarrow> u32 option res" where
  "sscanf_octal s =
     (case scan_number 8 s of
        None \<Rightarrow> Inr None
      | Some (v, r) \<Rightarrow> if \<bar>v\<bar> < 2 ^ 32 then Inr (Some (word_of_int v)) else Inl BadConversion)"

section \<open>Decimal output\<close>

definition digit_char :: "nat \<Rightarrow> char" where
  "digit_char d = char_of (48 + int d)"

fun print_nat :: "nat \<Rightarrow> string" where
  "print_nat n = (if n < 10 then [digit_char n] else print_nat (n div 10) @ [digit_char (n mod 10)])"

declare print_nat.simps [simp del]

definition print_int :: "int \<Rightarrow> string" where
  "print_int i = (if i < 0 then CHR ''-'' # print_nat (nat (- i)) else print_nat (nat i))"

section \<open>What is printed is read back\<close>

lemma char_code_char: "d < 10 \<Longrightarrow> char_code (digit_char d) = 48 + int d"
  by (simp add: char_code_def digit_char_def)

lemma digit_digit_char: "d < 10 \<Longrightarrow> digit 10 (digit_char d) = Some (int d)"
  by (simp add: digit_def isdigit_def char_code_char)

definition digit_free :: "string \<Rightarrow> bool" where
  "digit_free r \<longleftrightarrow> (case r of [] \<Rightarrow> True | c # cs \<Rightarrow> digit 10 c = None)"

lemma digits_free: "digit_free r \<Longrightarrow> digits 10 acc r = (0, acc, r)"
  by (cases r) (simp_all add: digit_free_def)

text \<open>A printed number has at least one digit and every character of it is one.\<close>

definition all_digits :: "string \<Rightarrow> bool" where
  "all_digits xs \<longleftrightarrow> (\<forall>c \<in> set xs. digit 10 c \<noteq> None)"

definition digits_value :: "int \<Rightarrow> string \<Rightarrow> int" where
  "digits_value acc xs = foldl (\<lambda>a c. a * 10 + the (digit 10 c)) acc xs"

lemma digits_run:
  "all_digits xs \<Longrightarrow> digit_free r \<Longrightarrow> digits 10 acc (xs @ r) = (length xs, digits_value acc xs, r)"
proof (induction xs arbitrary: acc)
  case Nil
  then show ?case by (simp add: digits_free digits_value_def)
next
  case (Cons c xs)
  obtain d where "digit 10 c = Some d" using Cons.prems(1) by (auto simp: all_digits_def)
  moreover have "digits 10 a (xs @ r) = (length xs, digits_value a xs, r)" for a
    using Cons by (simp add: all_digits_def)
  ultimately show ?case by (simp add: digits_value_def)
qed

lemma print_nat_digits: "all_digits (print_nat n) \<and> print_nat n \<noteq> [] \<and> digits_value 0 (print_nat n) = int n"
proof (induction n rule: print_nat.induct)
  case (1 n)
  show ?case
  proof (cases "n < 10")
    case True
    then show ?thesis
      by (subst (1 2 3) print_nat.simps) (simp add: all_digits_def digits_value_def digit_digit_char)
  next
    case False
    then have "int (n div 10) * 10 + int (n mod 10) = int n"
      using div_mult_mod_eq[of n 10] by (metis of_nat_add of_nat_mult of_nat_numeral)
    then show ?thesis using 1[OF False] False
      by (subst (1 2 3) print_nat.simps) (auto simp: all_digits_def digits_value_def digit_digit_char)
  qed
qed

lemmas print_nat_simps = print_nat_digits[THEN conjunct1] print_nat_digits[THEN conjunct2, THEN conjunct1]
  print_nat_digits[THEN conjunct2, THEN conjunct2]

lemma digits_print: "digit_free r \<Longrightarrow> digits 10 0 (print_nat n @ r) = (length (print_nat n), int n, r)"
  by (simp add: digits_run print_nat_simps)

lemma digit_not_special:
  assumes "digit 10 c \<noteq> None"
  shows "48 \<le> char_code c" "char_code c \<le> 57"
  using assms by (auto simp: digit_def isdigit_def Let_def split: if_splits)

lemma char_code_eq: "char_code c \<noteq> char_code d \<Longrightarrow> c \<noteq> d"
  by blast

text \<open>No sign, no white space and no letter starts a run of digits.\<close>

lemma digits_start:
  assumes "all_digits xs" "xs \<noteq> []"
  shows "sign (dropWhile isspace (xs @ r)) = (False, xs @ r)"
proof -
  obtain c cs where xs: "xs = c # cs" using assms(2) by (cases xs) auto
  then have c: "48 \<le> char_code c" "char_code c \<le> 57"
    using assms(1) digit_not_special[of c] by (simp_all add: all_digits_def)
  have "char_code CHR '' '' = 32" "char_code CHR ''-'' = 45" "char_code CHR ''+'' = 43"
    by (simp_all add: char_code_def)
  then have "\<not> isspace c" "c \<noteq> CHR ''-''" "c \<noteq> CHR ''+''" using c by (auto simp: isspace_def)
  then show ?thesis by (simp add: xs)
qed

lemma scan_print_nat: "digit_free r \<Longrightarrow> scan_number 10 (print_nat n @ r) = Some (int n, r)"
  by (simp add: scan_number_def digits_start print_nat_simps digits_print)

lemma scan_print_int:
  assumes "digit_free r"
  shows "scan_number 10 (print_int i @ r) = Some (i, r)"
proof (cases "i < 0")
  case True
  have "dropWhile isspace (CHR ''-'' # print_nat (nat (- i)) @ r) = CHR ''-'' # print_nat (nat (- i)) @ r"
    by (simp add: isspace_def char_code_def)
  then show ?thesis using True assms
    by (simp add: scan_number_def print_int_def digits_print print_nat_simps)
next
  case False
  then show ?thesis by (simp add: print_int_def scan_print_nat assms)
qed

lemma atoi_print_int: "INT_MIN \<le> i \<Longrightarrow> i \<le> INT_MAX \<Longrightarrow> digit_free r \<Longrightarrow> atoi (print_int i @ r) = Inr i"
  by (simp add: atoi_def scan_print_int)

text \<open>A decimal integer is also read by \<open>%lf\<close>, correctly rounded.\<close>

definition number_end :: "string \<Rightarrow> bool" where
  "number_end r \<longleftrightarrow> digit_free r \<and> (case r of [] \<Rightarrow> True | c # cs \<Rightarrow>
     c \<noteq> CHR ''.'' \<and> tolower c \<noteq> CHR ''e'' \<and> tolower c \<noteq> CHR ''x'')"

lemma scan_double_print:
  assumes "number_end r"
  shows "scan_double (print_nat n @ r) = Some (d_of_int (int n), r)"
proof -
  note p = print_nat_simps[of n]
  have free: "digit_free r" using assms by (simp add: number_end_def)
  obtain c cs where xs: "print_nat n = c # cs" using p(2) by (cases "print_nat n") auto
  have c: "48 \<le> char_code c" "char_code c \<le> 57"
    using p(1) digit_not_special[of c] by (simp_all add: all_digits_def xs)
  then have "tolower c = c" by (simp add: tolower_def)
  moreover have "char_code CHR ''i'' = 105" "char_code CHR ''n'' = 110" by (simp_all add: char_code_def)
  ultimately have ni: "tolower c \<noteq> CHR ''i''" "tolower c \<noteq> CHR ''n''" using c by auto
  have "\<not> (cs @ r \<noteq> [] \<and> tolower (hd (cs @ r)) = CHR ''x'')"
  proof (cases cs)
    case Nil
    then show ?thesis using assms by (cases r) (simp_all add: number_end_def)
  next
    case (Cons d ds)
    then have d: "48 \<le> char_code d" "char_code d \<le> 57"
      using p(1) digit_not_special[of d] by (simp_all add: all_digits_def xs)
    moreover have "tolower d = d" using d by (simp add: tolower_def)
    moreover have "char_code CHR ''x'' = 120" by (simp add: char_code_def)
    ultimately show ?thesis using Cons by auto
  qed
  then have "scan_double (print_nat n @ r) = scan_decimal False (print_nat n @ r)"
    using ni digits_start[OF p(1,2), of r] by (auto simp: scan_double_def xs)
  moreover have "mantissa 10 (print_nat n @ r) = Some (int n, 0, r)"
    unfolding mantissa_def digits_print[OF free]
    using assms p(2) by (cases r) (simp_all add: number_end_def)
  moreover have "exponent CHR ''e'' r = Some (0, r)"
    using assms by (cases r) (simp_all add: exponent_def number_end_def)
  ultimately show ?thesis by (simp add: scan_decimal_def d_of_int_def)
qed

lemma sscanf_value_plus_print:
  assumes "number_end r"
  shows "sscanf_value_plus (print_nat v @ CHR ''+'' # print_nat p @ r) =
    (Some (d_of_int (int v)), Some (d_of_int (int p)))"
proof -
  have "number_end (CHR ''+'' # print_nat p @ r)"
    by (simp add: number_end_def digit_free_def digit_def isdigit_def tolower_def char_code_def)
  from scan_double_print[OF this] scan_double_print[OF assms] show ?thesis
    by (simp add: sscanf_value_plus_def literal_def)
qed

end
