(* ===== verification/Wire_Parse.thy ===== *)
theory Wire_Parse
  imports Wire Scan
begin

text \<open>
  The state of the Markov chain (\<open>includes/wf_conn.h\<close>) and the functions of
  \<open>includes/wf_markov.c\<close> that read a wire value from a string and store it in the nodes. A C
  string is a list of characters without its terminator. The parser works backwards from the end
  of its string and may look at the characters before its start; they are an argument, nearest
  first.
\<close>

unbundle bit_operations_syntax

section \<open>State\<close>

text \<open>A missing node is a pointer that is \<open>NULL\<close> or was never written.\<close>

record markov =
  mk_nodes :: "markov_node option list option"
  mk_current_node :: int
  mk_nodes_count :: int
  mk_adjacency :: "double list option"
  mk_change_frequency :: u64
  mk_timerfd :: int

definition get_node :: "markov \<Rightarrow> int \<Rightarrow> markov_node res" where
  "get_node mk i = rbind (deref (mk_nodes mk)) (\<lambda>nodes. rbind (rd nodes i) deref)"

definition markov_current :: "markov \<Rightarrow> markov_node res" where
  "markov_current mk = get_node mk (mk_current_node mk)"

definition put_node :: "markov \<Rightarrow> int \<Rightarrow> markov_node \<Rightarrow> markov res" where
  "put_node mk i node =
     rbind (deref (mk_nodes mk)) (\<lambda>nodes.
     rbind (rd nodes i) (\<lambda>c. rbind (deref c) (\<lambda>_.
     rbind (wr nodes i (Some node)) (\<lambda>nodes. Inr (mk\<lparr>mk_nodes := Some nodes\<rparr>)))))"

section \<open>Reading one value\<close>

definition is_blank :: "char \<Rightarrow> bool" where
  "is_blank c \<longleftrightarrow> c = CHR '' '' \<or> c = CHR 0x0A \<or> c = CHR 0x09"

text \<open>
  The position \<open>n\<close> in the string, and the characters from there backwards. All positions from
  \<open>n + 1\<close> on that are left of the former end have been overwritten by \<open>'\0'\<close>.
\<close>

fun trim_right :: "int \<Rightarrow> string \<Rightarrow> (int \<times> string) res" where
  "trim_right n [] = Inl OutOfBounds"
| "trim_right n (c # cs) = (if is_blank c \<and> 0 < n then trim_right (n - 1) cs else Inr (n, c # cs))"

text \<open>Search for \<open>'['\<close>; the characters passed are collected.\<close>

fun find_open :: "int \<Rightarrow> string \<Rightarrow> string \<Rightarrow> (int \<times> string \<times> string) option res" where
  "find_open n [] acc = Inl OutOfBounds"
| "find_open n (c # cs) acc =
     (if c = CHR ''['' then Inr (Some (n, cs, acc))
      else if 0 < n then find_open (n - 1) cs (c # acc) else Inr None)"

definition peek :: "string \<Rightarrow> char res" where
  "peek rs = (case rs of [] \<Rightarrow> Inl OutOfBounds | c # cs \<Rightarrow> Inr c)"

definition read_node_number :: "int \<Rightarrow> string \<Rightarrow> (int \<times> string \<times> int) option res" where
  "read_node_number n rs =
     rbind (peek rs) (\<lambda>c.
       if c = CHR '']'' then
         rbind (find_open (n - 1) (tl rs) []) (\<lambda>found.
           case found of
             None \<Rightarrow> Inr None
           | Some (n, rs, text) \<Rightarrow>
               rbind (scan_int text) (\<lambda>k.
                 Inr (Some (n - 1, rs, case k of None \<Rightarrow> 0 | Some (v, _) \<Rightarrow> v))))
       else Inr (Some (n, rs, 0)))"

definition read_algorithm :: "int \<Rightarrow> string \<Rightarrow> (int \<times> string \<times> byte) res" where
  "read_algorithm n rs =
     rbind (peek rs) (\<lambda>c. Inr (
       if c = CHR ''u'' \<or> c = CHR ''U'' then (n - 1, tl rs, ALGO_UNIFORM)
       else if c = CHR ''n'' \<or> c = CHR ''N'' then (n - 1, tl rs, ALGO_GAUSS_NORMAL)
       else (n, rs, ALGO_UNIFORM)))"

definition read_multiplier :: "string \<Rightarrow> int res" where
  "read_multiplier rs =
     rbind (peek rs) (\<lambda>c. Inr (
       if c = CHR ''k'' \<or> c = CHR ''K'' then KILO
       else if c = CHR ''m'' \<or> c = CHR ''M'' then MEGA
       else if c = CHR ''g'' \<or> c = CHR ''G'' then GIGA
       else 1))"

text \<open>\<open>None\<close> is the return value -1.\<close>

definition parseWireValueString ::
  "string \<Rightarrow> string \<Rightarrow> (double \<times> double \<times> byte \<times> int) option res" where
  "parseWireValueString before string =
     rbind (trim_right (int (length string) - 1) (rev string @ before)) (\<lambda>(n, rs).
     rbind (read_node_number n rs) (\<lambda>r.
       case r of
         None \<Rightarrow> Inr None
       | Some (n, rs, to_set_node) \<Rightarrow>
           rbind (read_algorithm n rs) (\<lambda>(n, rs, algorithm).
           rbind (read_multiplier rs) (\<lambda>multiplier.
             case sscanf_value_plus (rev (take (nat (n + 1)) rs)) of
               (None, _) \<Rightarrow> Inr None
             | (Some v, plus_v) \<Rightarrow>
                 Inr (Some (d_mul v (d_of_int multiplier),
                            case plus_v of None \<Rightarrow> Fin 0 | Some p \<Rightarrow> p, algorithm, to_set_node))))))"

section \<open>Storing values\<close>

definition setNodeValue ::
  "markov_node \<Rightarrow> tag \<Rightarrow> dir \<Rightarrow> double \<Rightarrow> double \<Rightarrow> byte \<Rightarrow> markov_node" where
  "setNodeValue node tag direction v plus_v algorithm =
     node\<lparr>mn_value := (mn_value node)(tag := (mn_value node tag)(direction :=
       \<lparr>wv_value = v, wv_plus = plus_v, wv_algorithm = algorithm\<rparr>))\<rparr>"

text \<open>The direction at the start of an argument; \<open>None\<close> is \<open>BIDIRECTIONAL\<close>.\<close>

definition read_direction :: "string \<Rightarrow> dir option \<times> string \<times> string" where
  "read_direction s =
     (case s of
        c # d # cs \<Rightarrow>
          if (c = CHR ''L'' \<or> c = CHR ''l'') \<and> (d = CHR ''R'' \<or> d = CHR ''r'')
          then (Some LEFT_TO_RIGHT, [d, c], cs)
          else if (c = CHR ''R'' \<or> c = CHR ''r'') \<and> (d = CHR ''L'' \<or> d = CHR ''l'')
          then (Some RIGHT_TO_LEFT, [d, c], cs)
          else (None, [], s)
      | _ \<Rightarrow> (None, [], s))"

definition set_directions ::
  "dir option \<Rightarrow> tag \<Rightarrow> double \<Rightarrow> double \<Rightarrow> byte \<Rightarrow> markov_node \<Rightarrow> markov_node" where
  "set_directions direction tag v plus_v algorithm node =
     (let node = (if direction = Some LEFT_TO_RIGHT \<or> direction = None
                  then setNodeValue node tag LEFT_TO_RIGHT v plus_v algorithm else node)
      in if direction = Some RIGHT_TO_LEFT \<or> direction = None
         then setNodeValue node tag RIGHT_TO_LEFT v plus_v algorithm else node)"

lemma read_direction_length:
  assumes "read_direction s = (d, consumed, s')"
  shows "length s' \<le> length s" "s' = s \<or> length s' < length s"
  using assms by (auto simp: read_direction_def split: list.splits if_splits)

lemma rest_shorter:
  assumes "(d, consumed, s') = read_direction (dropWhile is_blank s)" "x \<in> set s" "\<not> is_blank x"
  shows "length (dropWhile (\<lambda>c. c \<noteq> CHR '' '') s') < length s"
proof -
  obtain c cs where c: "dropWhile is_blank s = c # cs"
    using assms(2,3) by (metis dropWhile_eq_Nil_conv list.exhaust)
  have l: "length (c # cs) \<le> length s" using length_dropWhile_le[of is_blank s] c by simp
  have "\<not> is_blank c" using hd_dropWhile[of is_blank s] c by (metis list.distinct(1) list.sel(1))
  then have nb: "c \<noteq> CHR '' ''" by (simp add: is_blank_def)
  have d: "length (dropWhile (\<lambda>c. c \<noteq> CHR '' '') s') \<le> length s'" by (rule length_dropWhile_le)
  from read_direction_length(2)[OF assms(1)[symmetric]] show ?thesis
    unfolding c
  proof
    assume "s' = c # cs"
    then have "length (dropWhile (\<lambda>c. c \<noteq> CHR '' '') s') \<le> length cs"
      using nb length_dropWhile_le[of "\<lambda>c. c \<noteq> CHR '' ''" cs] by simp
    then show ?thesis using l by simp
  next
    assume "length s' < length (c # cs)"
    then show ?thesis using l d by simp
  qed
qed

text \<open>
  The loop over the arguments. The character overwritten at the end of an argument is restored
  before the next one is read, so what lies directly before an argument is what the caller
  wrote there.
\<close>

function set_wire_values :: "tag \<Rightarrow> bool \<Rightarrow> string \<Rightarrow> string \<Rightarrow> markov \<Rightarrow> markov res" where
  "set_wire_values tag both before s mk =
     (let before = rev (takeWhile is_blank s) @ before; s = dropWhile is_blank s
      in if s = [] then Inr mk
         else
           let (direction, consumed, s) = read_direction s;
               before = consumed @ before;
               direction = (if both then None else direction);
               argument = takeWhile (\<lambda>c. c \<noteq> CHR '' '') s;
               rest = dropWhile (\<lambda>c. c \<noteq> CHR '' '') s
           in rbind (parseWireValueString before argument) (\<lambda>r.
                case r of
                  None \<Rightarrow> set_wire_values tag both (rev argument @ before) rest mk
                | Some (v, plus_v, algorithm, to_set_node) \<Rightarrow>
                    if to_set_node < 0 \<or> mk_nodes_count mk \<le> to_set_node then Inr mk
                    else
                      rbind (get_node mk to_set_node) (\<lambda>node.
                      rbind (put_node mk to_set_node
                               (set_directions direction tag v plus_v algorithm node)) (\<lambda>mk.
                        set_wire_values tag both (rev argument @ before) rest mk))))"
  by pat_completeness auto

termination
  by (relation "measure (\<lambda>(tag, both, before, s, mk). length s)")
    (auto intro: rest_shorter)

declare set_wire_values.simps [simp del]

definition WIRE_BIDIRECTIONAL :: int where
  "WIRE_BIDIRECTIONAL = 1"

text \<open>\<open>value_str\<close> may be \<open>NULL\<close>.\<close>

definition setWireValue :: "markov \<Rightarrow> tag \<Rightarrow> string \<Rightarrow> string option \<Rightarrow> int \<Rightarrow> markov res" where
  "setWireValue mk tag before value_str flags =
     (case value_str of
        None \<Rightarrow> Inr mk
      | Some s \<Rightarrow> set_wire_values tag (flags AND WIRE_BIDIRECTIONAL \<noteq> 0) before s mk)"

section \<open>A list of settings is applied in order\<close>

text \<open>
  A setting as the manual page writes it: direction, value, variation, multiplier, algorithm and
  node. Its printed form is read back and stored; settings are applied from left to right, up to
  the first one whose node does not exist.
\<close>

datatype unit_suffix = Ones | Kilo | Mega | Giga

record setting =
  st_dir :: "dir option"
  st_value :: nat
  st_plus :: nat
  st_unit :: unit_suffix
  st_normal :: bool
  st_node :: nat

fun print_dir :: "dir option \<Rightarrow> string" where
  "print_dir None = []"
| "print_dir (Some LEFT_TO_RIGHT) = ''LR''"
| "print_dir (Some RIGHT_TO_LEFT) = ''RL''"

fun print_unit :: "unit_suffix \<Rightarrow> string" where
  "print_unit Ones = []"
| "print_unit Kilo = ''K''"
| "print_unit Mega = ''M''"
| "print_unit Giga = ''G''"

fun unit_factor :: "unit_suffix \<Rightarrow> int" where
  "unit_factor Ones = 1"
| "unit_factor Kilo = KILO"
| "unit_factor Mega = MEGA"
| "unit_factor Giga = GIGA"

definition print_numbers :: "setting \<Rightarrow> string" where
  "print_numbers x = print_nat (st_value x) @ ''+'' @ print_nat (st_plus x) @ print_unit (st_unit x)"

definition print_argument :: "setting \<Rightarrow> string" where
  "print_argument x = print_numbers x @ (if st_normal x then ''N'' else ''U'') @ ''['' @ print_nat (st_node x) @ '']''"

definition print_setting :: "setting \<Rightarrow> string" where
  "print_setting x = print_dir (st_dir x) @ print_argument x"

definition st_algorithm :: "setting \<Rightarrow> byte" where
  "st_algorithm x = (if st_normal x then ALGO_GAUSS_NORMAL else ALGO_UNIFORM)"

definition st_scaled :: "setting \<Rightarrow> double" where
  "st_scaled x = d_mul (d_of_int (int (st_value x))) (d_of_int (unit_factor (st_unit x)))"

lemma find_open_run:
  assumes "CHR ''['' \<notin> set ds" "int (length ds) \<le> n"
  shows "find_open n (ds @ CHR ''['' # rs) acc = Inr (Some (n - int (length ds), rs, rev ds @ acc))"
  using assms by (induction ds arbitrary: n acc) auto

lemma print_nat_no:
  assumes "digit 10 c = None"
  shows "c \<notin> set (print_nat n)"
  using print_nat_simps(1)[of n] assms by (auto simp: all_digits_def)

lemma no_digits [simp]:
  "digit 10 CHR ''['' = None" "digit 10 CHR '']'' = None" "digit 10 CHR '' '' = None"
  "digit 10 CHR ''+'' = None" "digit 10 CHR ''N'' = None" "digit 10 CHR ''U'' = None"
  "digit 10 CHR ''L'' = None" "digit 10 CHR ''R'' = None" "digit 10 CHR ''l'' = None"
  "digit 10 CHR ''r'' = None" "digit 10 CHR ''K'' = None" "digit 10 CHR ''M'' = None"
  "digit 10 CHR ''G'' = None" "digit 10 CHR ''k'' = None" "digit 10 CHR ''m'' = None"
  "digit 10 CHR ''g'' = None" "digit 10 CHR 0x0A = None" "digit 10 CHR 0x09 = None"
  by (simp_all add: digit_def isdigit_def tolower_def char_code_def)

lemma scan_node: "int k \<le> INT_MAX \<Longrightarrow> scan_int (print_nat k) = Inr (Some (int k, []))"
  using scan_print_nat[of "[]" k] by (simp add: scan_int_def digit_free_def)

lemma read_multiplier_unit:
  "read_multiplier (rev (print_numbers x) @ before) = Inr (unit_factor (st_unit x))"
proof (cases "st_unit x")
  case Ones
  obtain ds d where p: "print_nat (st_plus x) = ds @ [d]"
    using print_nat_simps(2)[of "st_plus x"] by (metis rev_exhaust)
  then have "digit 10 d \<noteq> None" using print_nat_simps(1)[of "st_plus x"] by (simp add: all_digits_def)
  then have "d \<noteq> CHR ''k'' \<and> d \<noteq> CHR ''K'' \<and> d \<noteq> CHR ''m'' \<and> d \<noteq> CHR ''M'' \<and> d \<noteq> CHR ''g'' \<and> d \<noteq> CHR ''G''"
    by auto
  then show ?thesis using Ones p by (simp add: read_multiplier_def print_numbers_def peek_def)
qed (simp_all add: read_multiplier_def print_numbers_def peek_def)

lemma parse_setting:
  assumes "int (st_node x) \<le> INT_MAX"
  shows "parseWireValueString before (print_argument x) =
    Inr (Some (st_scaled x, d_of_int (int (st_plus x)), st_algorithm x, int (st_node x)))"
proof -
  let ?m = "int (length (print_numbers x))" and ?k = "print_nat (st_node x)"
  let ?a = "if st_normal x then CHR ''N'' else CHR ''U''"
  let ?rs = "rev (print_numbers x) @ before"
  have r: "rev (print_argument x) @ before = CHR '']'' # rev ?k @ CHR ''['' # ?a # ?rs"
    by (simp add: print_argument_def)
  have n: "int (length (print_argument x)) - 1 = ?m + 2 + int (length ?k)"
    by (simp add: print_argument_def)
  have "trim_right (?m + 2 + int (length ?k)) (CHR '']'' # rev ?k @ CHR ''['' # ?a # ?rs) =
      Inr (?m + 2 + int (length ?k), CHR '']'' # rev ?k @ CHR ''['' # ?a # ?rs)"
    by (simp add: is_blank_def)
  moreover have "find_open (?m + 1 + int (length ?k)) (rev ?k @ CHR ''['' # ?a # ?rs) [] =
      Inr (Some (?m + 1, ?a # ?rs, ?k))"
    using find_open_run[of "rev ?k" "?m + 1 + int (length ?k)" "?a # ?rs" "[]"]
    by (simp add: print_nat_no)
  then have "read_node_number (?m + 2 + int (length ?k)) (CHR '']'' # rev ?k @ CHR ''['' # ?a # ?rs) =
      Inr (Some (?m, ?a # ?rs, int (st_node x)))"
    by (simp add: read_node_number_def peek_def scan_node[OF assms] algebra_simps)
  moreover have "read_algorithm ?m (?a # ?rs) = Inr (?m - 1, ?rs, st_algorithm x)"
    by (simp add: read_algorithm_def peek_def st_algorithm_def)
  moreover have "number_end (print_unit (st_unit x))"
    by (cases "st_unit x") (simp_all add: number_end_def digit_free_def tolower_def char_code_def char_of_eq_iff)
  then have "sscanf_value_plus (print_numbers x) =
      (Some (d_of_int (int (st_value x))), Some (d_of_int (int (st_plus x))))"
    using sscanf_value_plus_print by (simp add: print_numbers_def)
  ultimately show ?thesis
    by (simp add: parseWireValueString_def r n read_multiplier_unit st_scaled_def)
qed

text \<open>The nodes of the chain.\<close>

definition nodes_ok :: "markov \<Rightarrow> bool" where
  "nodes_ok mk \<longleftrightarrow> (case mk_nodes mk of None \<Rightarrow> False | Some ns \<Rightarrow>
     int (length ns) = mk_nodes_count mk \<and> (\<forall>c \<in> set ns. c \<noteq> None)) \<and> mk_nodes_count mk \<le> INT_MAX"

definition node_of :: "markov \<Rightarrow> nat \<Rightarrow> markov_node" where
  "node_of mk i = the (the (mk_nodes mk) ! i)"

lemma get_node_ok:
  assumes "nodes_ok mk" "int i < mk_nodes_count mk"
  shows "get_node mk (int i) = Inr (node_of mk i)"
proof -
  obtain ns where ns: "mk_nodes mk = Some ns" "i < length ns" "\<forall>c \<in> set ns. c \<noteq> None"
    using assms by (auto simp: nodes_ok_def split: option.splits)
  then obtain n where "ns ! i = Some n" by (metis nth_mem not_None_eq)
  with ns show ?thesis by (auto simp: get_node_def node_of_def rd_ok)
qed

definition store_node :: "markov \<Rightarrow> nat \<Rightarrow> markov_node \<Rightarrow> markov" where
  "store_node mk i node = mk\<lparr>mk_nodes := Some ((the (mk_nodes mk))[i := Some node])\<rparr>"

lemma put_node_ok:
  assumes "nodes_ok mk" "int i < mk_nodes_count mk"
  shows "put_node mk (int i) node = Inr (store_node mk i node)" "nodes_ok (store_node mk i node)"
    "mk_nodes_count (store_node mk i node) = mk_nodes_count mk"
proof -
  obtain ns where ns: "mk_nodes mk = Some ns" "i < length ns" "\<forall>c \<in> set ns. c \<noteq> None"
    using assms by (auto simp: nodes_ok_def split: option.splits)
  then obtain n where "ns ! i = Some n" by (metis nth_mem not_None_eq)
  with ns show "put_node mk (int i) node = Inr (store_node mk i node)"
    by (auto simp: put_node_def store_node_def rd_ok wr_ok)
  show "nodes_ok (store_node mk i node)"
    using assms ns set_update_subset_insert[of ns i "Some node"]
    by (auto simp: nodes_ok_def store_node_def)
qed (simp add: store_node_def)

lemma node_of_store:
  assumes "nodes_ok mk" "int i < mk_nodes_count mk"
  shows "node_of (store_node mk i node) j = (if j = i then node else node_of mk j)"
  using assms by (auto simp: nodes_ok_def node_of_def store_node_def split: option.splits)

text \<open>One setting, as a function of the state.\<close>

definition apply_setting :: "tag \<Rightarrow> bool \<Rightarrow> setting \<Rightarrow> markov \<Rightarrow> markov" where
  "apply_setting tag both x mk =
     store_node mk (st_node x)
       (set_directions (if both then None else st_dir x) tag (st_scaled x)
          (d_of_int (int (st_plus x))) (st_algorithm x) (node_of mk (st_node x)))"

lemma apply_setting_ok:
  assumes "nodes_ok mk" "int (st_node x) < mk_nodes_count mk"
  shows "nodes_ok (apply_setting tag both x mk)"
    "mk_nodes_count (apply_setting tag both x mk) = mk_nodes_count mk"
  using put_node_ok[OF assms] by (simp_all add: apply_setting_def)

lemma argument_start:
  obtains c cs where "print_argument x = c # cs" "digit 10 c \<noteq> None"
proof -
  obtain c cs where "print_nat (st_value x) = c # cs"
    using print_nat_simps(2)[of "st_value x"] by (cases "print_nat (st_value x)") auto
  then show ?thesis using print_nat_simps(1)[of "st_value x"] that
    by (auto simp: print_argument_def print_numbers_def all_digits_def)
qed

lemma argument_no_space: "CHR '' '' \<notin> set (print_argument x)"
  by (cases "st_unit x") (simp_all add: print_argument_def print_numbers_def print_nat_no)

lemma read_direction_setting:
  "read_direction (print_setting x @ r) = (st_dir x, rev (print_dir (st_dir x)), print_argument x @ r)"
proof (cases "st_dir x")
  case None
  obtain c cs where c: "print_argument x = c # cs" "digit 10 c \<noteq> None" by (rule argument_start)
  then have "c \<noteq> CHR ''L'' \<and> c \<noteq> CHR ''l'' \<and> c \<noteq> CHR ''R'' \<and> c \<noteq> CHR ''r''" by auto
  then show ?thesis using None c
    by (auto simp: print_setting_def read_direction_def split: list.splits)
next
  case (Some d)
  then show ?thesis by (cases d) (simp_all add: print_setting_def read_direction_def)
qed

lemma setting_start: "\<exists>c cs. print_setting x = c # cs \<and> \<not> is_blank c"
proof (cases "st_dir x")
  case None
  obtain c cs where c: "print_argument x = c # cs" "digit 10 c \<noteq> None" by (rule argument_start)
  then have "\<not> is_blank c" by (auto simp: is_blank_def)
  with None c show ?thesis by (simp add: print_setting_def)
next
  case (Some d)
  then show ?thesis by (cases d) (simp_all add: print_setting_def is_blank_def)
qed

lemma set_directions_value:
  "mn_value (set_directions dd tag v p a node) t d =
    (if t = tag \<and> (dd = None \<or> dd = Some d)
     then \<lparr>wv_value = v, wv_plus = p, wv_algorithm = a\<rparr> else mn_value node t d)"
proof (cases dd)
  case None
  then show ?thesis by (cases d) (simp_all add: set_directions_def setNodeValue_def)
next
  case (Some d')
  then show ?thesis by (cases d'; cases d) (simp_all add: set_directions_def setNodeValue_def)
qed

text \<open>Settings separated by single blanks.\<close>

fun print_settings :: "setting list \<Rightarrow> string" where
  "print_settings [] = []"
| "print_settings (x # xs) = '' '' @ print_setting x @ print_settings xs"

lemma argument_end:
  "takeWhile (\<lambda>c. c \<noteq> CHR '' '') (print_argument x @ print_settings xs) = print_argument x"
  "dropWhile (\<lambda>c. c \<noteq> CHR '' '') (print_argument x @ print_settings xs) = print_settings xs"
proof -
  have "\<forall>c \<in> set (print_argument x). c \<noteq> CHR '' ''" using argument_no_space[of x] by auto
  then show "takeWhile (\<lambda>c. c \<noteq> CHR '' '') (print_argument x @ print_settings xs) = print_argument x"
    "dropWhile (\<lambda>c. c \<noteq> CHR '' '') (print_argument x @ print_settings xs) = print_settings xs"
    by (cases xs; simp add: takeWhile_append2 dropWhile_append2)+
qed

lemma set_wire_values_step:
  assumes "nodes_ok mk" "int (st_node x) \<le> INT_MAX" and blanks: "\<forall>c \<in> set blanks. is_blank c"
  shows "\<exists>before'. set_wire_values tag both before (blanks @ print_setting x @ print_settings xs) mk =
    (if int (st_node x) < mk_nodes_count mk
     then set_wire_values tag both before' (print_settings xs) (apply_setting tag both x mk)
     else Inr mk)"
proof -
  obtain c cs where c: "print_setting x = c # cs" "\<not> is_blank c" using setting_start by blast
  have w: "takeWhile is_blank (blanks @ print_setting x @ print_settings xs) = blanks"
    "dropWhile is_blank (blanks @ print_setting x @ print_settings xs) = print_setting x @ print_settings xs"
    using blanks c by (simp_all add: takeWhile_append2 dropWhile_append2)
  have ne: "print_setting x \<noteq> []" using c by simp
  show ?thesis
    by (subst set_wire_values.simps)
      (auto simp: w ne read_direction_setting argument_end parse_setting[OF assms(2)]
        get_node_ok[OF assms(1)] put_node_ok[OF assms(1)] apply_setting_def Let_def not_less)
qed

lemma settings_read:
  assumes "nodes_ok mk" "\<forall>x \<in> set xs. int (st_node x) \<le> INT_MAX"
  shows "set_wire_values tag both before (print_settings xs) mk =
    Inr (fold (apply_setting tag both) (takeWhile (\<lambda>x. int (st_node x) < mk_nodes_count mk) xs) mk)"
  using assms
proof (induction xs arbitrary: mk before)
  case Nil
  then show ?case by (subst set_wire_values.simps) simp
next
  case (Cons x xs)
  have "\<forall>c \<in> set '' ''. is_blank c" by (simp add: is_blank_def)
  from set_wire_values_step[OF Cons.prems(1) _ this, of x] Cons.prems(2)
  obtain before' where "set_wire_values tag both before (print_settings (x # xs)) mk =
    (if int (st_node x) < mk_nodes_count mk
     then set_wire_values tag both before' (print_settings xs) (apply_setting tag both x mk)
     else Inr mk)"
    by fastforce
  then show ?case using Cons apply_setting_ok[OF Cons.prems(1)] by simp
qed

section \<open>Properties\<close>

text \<open>A chain of two nodes for concrete runs.\<close>

definition two_nodes :: markov where
  "two_nodes = \<lparr>mk_nodes = Some [Some zero_node, Some zero_node], mk_current_node = 0,
     mk_nodes_count = 2, mk_adjacency = Some [Fin 100, Fin 0, Fin 0, Fin 100],
     mk_change_frequency = 100000000, mk_timerfd = 6\<rparr>"

definition lossy_second :: setting where
  "lossy_second = \<lparr>st_dir = Some LEFT_TO_RIGHT, st_value = 5, st_plus = 2, st_unit = Kilo,
     st_normal = True, st_node = 1\<rparr>"

lemma two_nodes_ok: "nodes_ok two_nodes" "mk_nodes_count two_nodes = 2"
  by (simp_all add: nodes_ok_def two_nodes_def)

text \<open>C11: a list of settings in the syntax of the manual page (direction, value, variation,
  multiplier, algorithm, node) is read back exactly and applied from left to right, up to the
  first setting whose node does not exist; what stands before the string does not matter.\<close>

theorem settings_applied:
  assumes "nodes_ok mk" "\<forall>x \<in> set xs. int (st_node x) \<le> INT_MAX"
  shows "setWireValue mk tag before (Some (print_settings xs)) flags =
    Inr (fold (apply_setting tag (flags AND WIRE_BIDIRECTIONAL \<noteq> 0))
           (takeWhile (\<lambda>x. int (st_node x) < mk_nodes_count mk) xs) mk)"
  by (simp add: setWireValue_def settings_read[OF assms])

theorem settings_applied_witness:
  "setWireValue two_nodes LOSS ''ssol'' (Some '' LR5+2KN[1]'') 0 = Inr (apply_setting LOSS False lossy_second two_nodes)"
proof -
  have "print_settings [lossy_second] = '' LR5+2KN[1]''" by code_simp
  moreover have "takeWhile (\<lambda>x. int (st_node x) < mk_nodes_count two_nodes) [lossy_second] = [lossy_second]"
    by (simp add: two_nodes_ok) (simp add: lossy_second_def)
  ultimately show ?thesis
    using settings_applied[OF two_nodes_ok(1), of "[lossy_second]" LOSS "''ssol''" 0]
    by (simp add: lossy_second_def)
qed

text \<open>C39: applying a setting changes the value of its node, its tag and its direction (of both
  directions when it names none or the tag is bidirectional) and nothing else; the multiplier
  scales the value and not the variation.\<close>

theorem setting_effect:
  assumes "nodes_ok mk" "int (st_node x) < mk_nodes_count mk"
  shows "mn_value (node_of (apply_setting tag both x mk) k) t d =
    (if k = st_node x \<and> t = tag \<and> (both \<or> st_dir x = None \<or> st_dir x = Some d)
     then \<lparr>wv_value = d_mul (d_of_int (int (st_value x))) (d_of_int (unit_factor (st_unit x))),
           wv_plus = d_of_int (int (st_plus x)),
           wv_algorithm = (if st_normal x then ALGO_GAUSS_NORMAL else ALGO_UNIFORM)\<rparr>
     else mn_value (node_of mk k) t d)"
  using assms
  by (auto simp: apply_setting_def node_of_store set_directions_value st_scaled_def st_algorithm_def)

theorem setting_effect_witness:
  "wv_plus (mn_value (node_of (apply_setting LOSS False lossy_second two_nodes) 1) LOSS LEFT_TO_RIGHT) = d_of_int 2 \<and>
   mn_value (node_of (apply_setting LOSS False lossy_second two_nodes) 1) LOSS RIGHT_TO_LEFT = zero_value"
  using setting_effect[OF two_nodes_ok(1), of lossy_second LOSS False 1 LOSS LEFT_TO_RIGHT]
    setting_effect[OF two_nodes_ok(1), of lossy_second LOSS False 1 LOSS RIGHT_TO_LEFT]
  by (simp add: lossy_second_def two_nodes_def node_of_def zero_node_def)

end
