(* ===== verification/Markov.thy ===== *)
theory Markov
  imports Wire_Parse
begin

text \<open>
  The Markov chain (\<open>includes/wf_markov.c\<close>): its transition weights, a square matrix kept in one
  block, its names, its size, and the choice of the next node. \<open>markovStep\<close> itself, which also
  reports to the management clients, is in \<open>Conn\<close>.
\<close>

section \<open>The matrix\<close>

text \<open>\<open>ADJMAPN\<close> and \<open>ADJMAP\<close>; only the index into the block is checked, as in the code.\<close>

definition adj_index :: "int \<Rightarrow> int \<Rightarrow> int \<Rightarrow> int" where
  "adj_index i j n = i * n + j"

definition get_adj :: "markov \<Rightarrow> int \<Rightarrow> int \<Rightarrow> double res" where
  "get_adj mk i j =
     rbind (deref (mk_adjacency mk)) (\<lambda>m. rd m (adj_index i j (mk_nodes_count mk)))"

definition put_adj :: "markov \<Rightarrow> int \<Rightarrow> int \<Rightarrow> double \<Rightarrow> markov res" where
  "put_adj mk i j w =
     rbind (deref (mk_adjacency mk)) (\<lambda>m.
     rbind (wr m (adj_index i j (mk_nodes_count mk)) w) (\<lambda>m. Inr (mk\<lparr>mk_adjacency := Some m\<rparr>)))"

definition markovRebalanceNode :: "markov \<Rightarrow> int \<Rightarrow> markov res" where
  "markovRebalanceNode mk node =
     rbind (put_adj mk node node (Fin 100)) (\<lambda>mk.
       each (\<lambda>i mk.
         rbind (get_adj mk node node) (\<lambda>own.
         rbind (get_adj mk node (c_rem (node + i) (mk_nodes_count mk))) (\<lambda>w.
           put_adj mk node node (d_sub own w)))) [1..mk_nodes_count mk - 1] mk)"

text \<open>
  The three variables of the loop keep their values from one edge to the next; what a malformed
  edge does not assign is reused.
\<close>

definition assigned :: "'a option \<Rightarrow> 'a option \<Rightarrow> 'a option" where
  "assigned new old = (case new of None \<Rightarrow> old | Some x \<Rightarrow> Some x)"

lemma next_word_shorter:
  assumes "x \<in> set s" "\<not> is_blank x"
  shows "length (dropWhile (\<lambda>c. c \<noteq> CHR '' '') (dropWhile is_blank s)) < length s"
proof -
  have ne: "dropWhile is_blank s \<noteq> []" using assms by (auto simp: dropWhile_eq_Nil_conv)
  then obtain c cs where c: "dropWhile is_blank s = c # cs" by (meson list.exhaust)
  have "\<not> is_blank c" using hd_dropWhile[OF ne] c by simp
  then have "length (dropWhile (\<lambda>c. c \<noteq> CHR '' '') (c # cs)) \<le> length cs"
    using length_dropWhile_le[of "\<lambda>c. c \<noteq> CHR '' ''" cs] by (simp add: is_blank_def)
  then show ?thesis using length_dropWhile_le[of is_blank s] c by simp
qed

function set_edges ::
  "string \<Rightarrow> int option \<Rightarrow> int option \<Rightarrow> double option \<Rightarrow> markov \<Rightarrow> markov res" where
  "set_edges s start_node end_node weight mk =
     (let s = dropWhile is_blank s
      in if s = [] then Inr mk
         else
           rbind (sscanf_edge s) (\<lambda>(a, b, w).
           rbind (initialised (assigned a start_node)) (\<lambda>i.
           rbind (initialised (assigned b end_node)) (\<lambda>j.
           rbind (initialised (assigned w weight)) (\<lambda>w.
           rbind (put_adj mk i j w) (\<lambda>mk.
           rbind (markovRebalanceNode mk i) (\<lambda>mk.
             set_edges (dropWhile (\<lambda>c. c \<noteq> CHR '' '') s) (Some i) (Some j) (Some w) mk)))))))"
  by pat_completeness auto

termination
  by (relation "measure (\<lambda>(s, i, j, w, mk). length s)") (auto intro: next_word_shorter)

declare set_edges.simps [simp del]

definition markovSetEdges :: "markov \<Rightarrow> string \<Rightarrow> markov res" where
  "markovSetEdges mk edges_str = set_edges edges_str None None None mk"

section \<open>Names\<close>

text \<open>\<open>strdup\<close> gives \<open>NULL\<close> when there is no memory.\<close>

definition set_name :: "markov \<Rightarrow> int \<Rightarrow> string \<Rightarrow> env \<Rightarrow> (markov \<times> env) res" where
  "set_name mk node name e =
     (if node < mk_nodes_count mk then
        rbind (get_node mk node) (\<lambda>nd.
          let e = (if mn_name nd = None then e else release e);
              (ok, e) = alloc e
          in rbind (put_node mk node (nd\<lparr>mn_name := (if ok then Some name else None)\<rparr>)) (\<lambda>mk.
               Inr (mk, e)))
      else Inr (mk, e))"

lemma names_rest_shorter:
  assumes "dropWhile (\<lambda>c. c \<noteq> CHR '','') (dropWhile is_blank s) \<noteq> []"
  shows "length (tl (dropWhile P (tl (dropWhile (\<lambda>c. c \<noteq> CHR '','') (dropWhile is_blank s))))) < length s"
proof -
  let ?t = "dropWhile (\<lambda>c. c \<noteq> CHR '','') (dropWhile is_blank s)"
  have "length (tl (dropWhile P (tl ?t))) \<le> length (tl ?t)"
    using length_dropWhile_le[of P "tl ?t"] by simp
  also have "\<dots> < length ?t" using assms by (cases ?t) simp_all
  also have "\<dots> \<le> length s"
    using length_dropWhile_le[of "\<lambda>c. c \<noteq> CHR '',''" "dropWhile is_blank s"] length_dropWhile_le[of is_blank s]
    by simp
  finally show ?thesis .
qed

function markovSetNames :: "markov \<Rightarrow> string \<Rightarrow> env \<Rightarrow> (markov \<times> env) res" where
  "markovSetNames mk names_str e =
     (let s = dropWhile is_blank names_str
      in if s = [] then Inr (mk, e)
         else
           rbind (atoi s) (\<lambda>node.
             let s = dropWhile (\<lambda>c. c \<noteq> CHR '','') s
             in if s = [] then Inr (mk, e)
                else
                  let name = takeWhile (\<lambda>c. c \<noteq> CHR '' '') (tl s);
                      rest = dropWhile (\<lambda>c. c \<noteq> CHR '' '') (tl s)
                  in rbind (set_name mk node name e) (\<lambda>(mk, e).
                       if rest = [] then Inr (mk, e) else markovSetNames mk (tl rest) e)))"
  by pat_completeness auto

termination
  by (relation "measure (\<lambda>(mk, s, e). length s)") (simp, metis in_measure case_prod_conv names_rest_shorter)

declare markovSetNames.simps [simp del]

section \<open>Size\<close>

definition copyAdjacency :: "markov \<Rightarrow> int \<Rightarrow> double list \<Rightarrow> double list res" where
  "copyAdjacency mk new_size new_map =
     each (\<lambda>i m.
       rbind (wr m (adj_index i i new_size) (Fin 100)) (\<lambda>m.
         each (\<lambda>j m.
           let real_j = c_rem (i + j) new_size
           in if i < mk_nodes_count mk \<and> real_j < mk_nodes_count mk then
                rbind (get_adj mk i real_j) (\<lambda>w.
                rbind (wr m (adj_index i real_j new_size) w) (\<lambda>m.
                rbind (rd m (adj_index i i new_size)) (\<lambda>own.
                rbind (rd m (adj_index i real_j new_size)) (\<lambda>w.
                  wr m (adj_index i i new_size) (d_sub own w)))))
              else Inr m) [1..new_size - 1] m)) [0..new_size - 1] new_map"

text \<open>The nodes \<open>calloc\<close> makes; after a failure the rest of the array is left as it is.\<close>

fun new_nodes :: "nat \<Rightarrow> env \<Rightarrow> markov_node option list \<times> bool \<times> env" where
  "new_nodes 0 e = ([], True, e)"
| "new_nodes (Suc k) e =
     (let (ok, e) = alloc e
      in if \<not> ok then (replicate (Suc k) None, False, e)
         else let (ns, ok, e) = new_nodes k e in (Some zero_node # ns, ok, e))"

text \<open>\<open>realloc\<close> of an array: \<open>NULL\<close> in is an allocation, a size of zero frees the block.\<close>

definition realloc_nodes ::
  "markov_node option list option \<Rightarrow> int \<Rightarrow> env \<Rightarrow> markov_node option list option \<times> env" where
  "realloc_nodes old n e =
     (if old \<noteq> None \<and> n = 0 then (None, release e)
      else
        let ok = e_malloc e (e_mallocs e);
            e = e\<lparr>e_mallocs := Suc (e_mallocs e),
                  e_live := (if ok \<and> old = None then e_live e + 1 else e_live e)\<rparr>;
            cells = (case old of None \<Rightarrow> [] | Some cs \<Rightarrow> cs)
        in (if ok then Some (take (nat n) cells @ replicate (nat n - length cells) None) else None, e))"

definition free_node :: "markov_node option list option \<Rightarrow> int \<Rightarrow> env \<Rightarrow> env res" where
  "free_node nodes i e =
     rbind (deref nodes) (\<lambda>nodes. rbind (rd nodes i) (\<lambda>c. Inr (if c = None then e else release e)))"

definition resize_nodes :: "markov \<Rightarrow> int \<Rightarrow> env \<Rightarrow> (bool \<times> markov \<times> env) res" where
  "resize_nodes mk new_nodes_count e =
     (if mk_nodes_count mk < new_nodes_count then
        let (nodes, e) = realloc_nodes (mk_nodes mk) new_nodes_count e
        in case nodes of
             None \<Rightarrow> Inr (False, mk\<lparr>mk_nodes := None\<rparr>, e)
           | Some cells \<Rightarrow>
               let (ns, ok, e) = new_nodes (nat (new_nodes_count - mk_nodes_count mk)) e
               in Inr (ok, mk\<lparr>mk_nodes := Some (take (nat (mk_nodes_count mk)) cells @ ns)\<rparr>, e)
      else
        rbind (each (free_node (mk_nodes mk)) [new_nodes_count..mk_nodes_count mk - 1] e) (\<lambda>e.
          let (nodes, e) = realloc_nodes (mk_nodes mk) new_nodes_count e
          in case nodes of
               None \<Rightarrow> Inr (False, mk\<lparr>mk_nodes := None\<rparr>, e)
             | Some cells \<Rightarrow>
                 Inr (True, mk\<lparr>mk_nodes := Some cells,
                   mk_current_node := (if new_nodes_count \<le> mk_current_node mk then 0
                                       else mk_current_node mk)\<rparr>, e)))"

definition markovResize :: "markov \<Rightarrow> int \<Rightarrow> env \<Rightarrow> (int \<times> markov \<times> env) res" where
  "markovResize mk new_nodes_count e =
     (if mk_nodes_count mk = new_nodes_count then Inr (0, mk, e)
      else
        rbind (resize_nodes mk new_nodes_count e) (\<lambda>(ok, mk, e).
          if \<not> ok then Inr (- 1, mk, e)
          else if INT_MAX < new_nodes_count * new_nodes_count then Inl SignedOverflow
          else
            let (ok, e) = alloc e
            in if \<not> ok then Inr (- 1, mk, e)
               else
                 rbind (copyAdjacency mk new_nodes_count
                          (replicate (nat (new_nodes_count * new_nodes_count)) (Fin 0))) (\<lambda>new_map.
                   let e = (if mk_adjacency mk = None then e else release e)
                   in Inr (0, mk\<lparr>mk_adjacency := Some new_map, mk_nodes_count := new_nodes_count\<rparr>, e))))"

definition initMarkov ::
  "markov \<Rightarrow> int \<Rightarrow> int \<Rightarrow> u64 \<Rightarrow> env \<Rightarrow> (int \<times> markov \<times> env) res" where
  "initMarkov mk n start_node change_frequency e =
     rbind (markovResize mk (if n \<le> 0 then 1 else n) e) (\<lambda>(ret, mk, e).
       if ret < 0 then Inr (- 1, mk, e)
       else
         let mk = mk\<lparr>mk_current_node := start_node\<rparr>;
             (fd, e) = syscall e;
             mk = mk\<lparr>mk_timerfd := fd\<rparr>
         in if fd < 0 then Inr (- 1, mk, e)
            else Inr (0, mk\<lparr>mk_change_frequency := change_frequency\<rparr>, e))"

text \<open>Neither the nodes nor their names are freed.\<close>

definition closeMarkov :: "markov \<Rightarrow> env \<Rightarrow> env" where
  "closeMarkov mk e =
     (let e = (if mk_nodes mk = None then e else release e);
          e = (if mk_adjacency mk = None then e else release e)
      in emit (CloseFd (mk_timerfd mk)) e)"

section \<open>The next node\<close>

text \<open>
  The loop of \<open>markovStep\<close>: the nodes in cyclic order from the start node, until the weight of
  the edge reaches what is left of the drawn number.
\<close>

fun choose_node :: "markov \<Rightarrow> int \<Rightarrow> int list \<Rightarrow> int \<Rightarrow> double \<Rightarrow> int res" where
  "choose_node mk start_node [] new_node probability = Inr new_node"
| "choose_node mk start_node (j # js) new_node probability =
     (let new_node = c_rem (start_node + j) (mk_nodes_count mk)
      in rbind (get_adj mk start_node new_node) (\<lambda>change_probability.
           if d_le probability change_probability then Inr new_node
           else choose_node mk start_node js new_node (d_sub probability change_probability)))"

definition markov_next :: "markov \<Rightarrow> int \<Rightarrow> env \<Rightarrow> (int \<times> env) res" where
  "markov_next mk start_node e =
     (let (u, e) = random e
      in rbind (choose_node mk start_node [0..mk_nodes_count mk - 1] 0 (d_mul u (Fin 100))) (\<lambda>n.
           Inr (n, e)))"

end
