(* ===== verification/Markov_Props.thy ===== *)
theory Markov_Props
  imports Markov
begin

text \<open>
  Facts about the chain: its shape, the self-loop of every row, the setting of edges, the choice
  of the next node and the change of size.
\<close>

section \<open>Shape\<close>

definition chain_ok :: "markov \<Rightarrow> bool" where
  "chain_ok mk \<longleftrightarrow> nodes_ok mk \<and> 1 \<le> mk_nodes_count mk \<and>
     mk_nodes_count mk * mk_nodes_count mk \<le> INT_MAX \<and>
     (case mk_adjacency mk of None \<Rightarrow> False
      | Some m \<Rightarrow> length m = nat (mk_nodes_count mk * mk_nodes_count mk))"

definition in_chain :: "markov \<Rightarrow> int \<Rightarrow> bool" where
  "in_chain mk i \<longleftrightarrow> 0 \<le> i \<and> i < mk_nodes_count mk"

definition entry :: "double list \<Rightarrow> int \<Rightarrow> int \<Rightarrow> int \<Rightarrow> double" where
  "entry m n i j = m ! nat (adj_index i j n)"

definition weight :: "markov \<Rightarrow> int \<Rightarrow> int \<Rightarrow> double" where
  "weight mk = entry (the (mk_adjacency mk)) (mk_nodes_count mk)"

lemma adj_index_bounds:
  assumes "0 \<le> i" "i < n" "0 \<le> j" "j < n"
  shows "0 \<le> adj_index i j n" "adj_index i j n < n * n"
proof -
  have "i * n + j < i * n + n" using assms by simp
  also have "\<dots> = (i + 1) * n" by (simp add: algebra_simps)
  also have "\<dots> \<le> n * n" using assms by (intro mult_right_mono) simp_all
  finally show "adj_index i j n < n * n" by (simp add: adj_index_def)
  show "0 \<le> adj_index i j n" using assms by (simp add: adj_index_def)
qed

lemma adj_index_inj:
  assumes "0 \<le> j" "j < n" "0 \<le> j'" "j' < n"
  shows "adj_index i j n = adj_index i' j' n \<longleftrightarrow> i = i' \<and> j = j'"
proof
  assume e: "adj_index i j n = adj_index i' j' n"
  then have "(i * n + j) div n = (i' * n + j') div n" "(i * n + j) mod n = (i' * n + j') mod n"
    by (simp_all add: adj_index_def)
  then show "i = i' \<and> j = j'" using assms by simp
qed simp

lemma entry_update:
  assumes "0 \<le> i" "i < n" "0 \<le> j" "j < n" "0 \<le> a" "a < n" "0 \<le> b" "b < n" "int (length m) = n * n"
  shows "entry (m[nat (adj_index i j n) := w]) n a b = (if a = i \<and> b = j then w else entry m n a b)"
proof -
  note bd = adj_index_bounds[OF assms(1-4)] adj_index_bounds[OF assms(5-8)]
  have "nat (adj_index i j n) = nat (adj_index a b n) \<longleftrightarrow> adj_index i j n = adj_index a b n"
    using bd by (simp add: eq_nat_nat_iff)
  also have "\<dots> \<longleftrightarrow> i = a \<and> j = b" using assms by (intro adj_index_inj) simp_all
  finally show ?thesis using bd assms(9) by (auto simp: entry_def nth_list_update)
qed

lemma chain_matrix:
  assumes "chain_ok mk"
  obtains m where "mk_adjacency mk = Some m" "int (length m) = mk_nodes_count mk * mk_nodes_count mk"
  using assms by (auto simp: chain_ok_def split: option.splits)

lemma get_adj_ok:
  assumes "chain_ok mk" "in_chain mk i" "in_chain mk j"
  shows "get_adj mk i j = Inr (weight mk i j)"
proof -
  obtain m where m: "mk_adjacency mk = Some m" "int (length m) = mk_nodes_count mk * mk_nodes_count mk"
    using assms(1) by (rule chain_matrix)
  then show ?thesis using adj_index_bounds[of i "mk_nodes_count mk" j] assms
    by (simp add: get_adj_def rd_ok in_chain_def weight_def entry_def)
qed

definition set_weight :: "markov \<Rightarrow> int \<Rightarrow> int \<Rightarrow> double \<Rightarrow> markov" where
  "set_weight mk i j w = mk\<lparr>mk_adjacency :=
     Some ((the (mk_adjacency mk))[nat (adj_index i j (mk_nodes_count mk)) := w])\<rparr>"

lemma put_adj_ok:
  assumes "chain_ok mk" "in_chain mk i" "in_chain mk j"
  shows "put_adj mk i j w = Inr (set_weight mk i j w)"
proof -
  obtain m where m: "mk_adjacency mk = Some m" "int (length m) = mk_nodes_count mk * mk_nodes_count mk"
    using assms(1) by (rule chain_matrix)
  then show ?thesis using adj_index_bounds[of i "mk_nodes_count mk" j] assms
    by (simp add: put_adj_def wr_ok in_chain_def set_weight_def)
qed

lemma set_weight_frame [simp]:
  "mk_nodes (set_weight mk i j w) = mk_nodes mk"
  "mk_nodes_count (set_weight mk i j w) = mk_nodes_count mk"
  "mk_current_node (set_weight mk i j w) = mk_current_node mk"
  "in_chain (set_weight mk i j w) = in_chain mk"
  by (simp_all add: set_weight_def in_chain_def fun_eq_iff)

lemma set_weight_ok: "chain_ok mk \<Longrightarrow> chain_ok (set_weight mk i j w)"
  by (auto simp: chain_ok_def nodes_ok_def set_weight_def split: option.splits)

lemma weight_set:
  assumes "chain_ok mk" "in_chain mk i" "in_chain mk j" "in_chain mk a" "in_chain mk b"
  shows "weight (set_weight mk i j w) a b = (if a = i \<and> b = j then w else weight mk a b)"
proof -
  obtain m where "mk_adjacency mk = Some m" "int (length m) = mk_nodes_count mk * mk_nodes_count mk"
    using assms(1) by (rule chain_matrix)
  then show ?thesis using assms
    by (simp add: weight_def set_weight_def entry_update in_chain_def)
qed

section \<open>The self-loop\<close>

text \<open>What is left of 100 after the other edges of the row are subtracted, in the order of the code.\<close>

definition left_over :: "(int \<Rightarrow> int \<Rightarrow> double) \<Rightarrow> int \<Rightarrow> int \<Rightarrow> int \<Rightarrow> double" where
  "left_over f n i k = fold (\<lambda>j s. d_sub s (f i ((i + j) mod n))) [1..k - 1] (Fin 100)"

lemma left_over_1 [simp]: "left_over f n i 1 = Fin 100"
  by (simp add: left_over_def)

lemma left_over_step: "1 \<le> k \<Longrightarrow> left_over f n i (k + 1) = d_sub (left_over f n i k) (f i ((i + k) mod n))"
  by (simp add: left_over_def upto_rec2)

lemma left_over_cong:
  assumes "0 \<le> i" "i < n" "k \<le> n" "\<And>b. 0 \<le> b \<Longrightarrow> b < n \<Longrightarrow> b \<noteq> i \<Longrightarrow> f i b = g i b"
  shows "left_over f n i k = left_over g n i k"
  unfolding left_over_def
proof (rule fold_cong[OF refl refl])
  fix j assume "j \<in> set [1..k - 1]"
  then have j: "1 \<le> j" "j < n" using assms(3) by auto
  have "(i + j) mod n \<noteq> i"
  proof
    assume "(i + j) mod n = i"
    then have "(i + j) mod n = i mod n" using assms(1,2) by simp
    then have "n dvd j" by (simp add: mod_eq_dvd_iff)
    then show False using j zdvd_imp_le by fastforce
  qed
  moreover have "0 \<le> (i + j) mod n" "(i + j) mod n < n" using assms(1,2) by simp_all
  ultimately show "(\<lambda>s. d_sub s (f i ((i + j) mod n))) = (\<lambda>s. d_sub s (g i ((i + j) mod n)))"
    using assms(4) by simp
qed

definition balanced :: "markov \<Rightarrow> bool" where
  "balanced mk \<longleftrightarrow> (\<forall>i \<in> {0..<mk_nodes_count mk}.
     weight mk i i = left_over (weight mk) (mk_nodes_count mk) i (mk_nodes_count mk))"

text \<open>What rebalancing keeps.\<close>

definition only_matrix :: "markov \<Rightarrow> markov \<Rightarrow> bool" where
  "only_matrix mk mk' \<longleftrightarrow> mk_nodes mk' = mk_nodes mk \<and> mk_current_node mk' = mk_current_node mk \<and>
     mk_nodes_count mk' = mk_nodes_count mk \<and> mk_change_frequency mk' = mk_change_frequency mk \<and>
     mk_timerfd mk' = mk_timerfd mk"

lemma only_matrix_refl [simp]: "only_matrix mk mk"
  by (simp add: only_matrix_def)

lemma only_matrix_trans: "only_matrix a b \<Longrightarrow> only_matrix b c \<Longrightarrow> only_matrix a c"
  by (simp add: only_matrix_def)

lemma only_matrix_set [simp]: "only_matrix mk (set_weight mk i j w)"
  by (simp add: only_matrix_def set_weight_def)

lemma only_matrix_count:
  assumes "only_matrix mk mk'"
  shows "mk_nodes_count mk' = mk_nodes_count mk" "in_chain mk' = in_chain mk"
  using assms by (simp_all add: only_matrix_def in_chain_def fun_eq_iff)

definition same_but_loop :: "int \<Rightarrow> markov \<Rightarrow> markov \<Rightarrow> bool" where
  "same_but_loop i mk mk' \<longleftrightarrow> chain_ok mk' \<and> only_matrix mk mk' \<and>
     (\<forall>a b. in_chain mk a \<longrightarrow> in_chain mk b \<longrightarrow> \<not> (a = i \<and> b = i) \<longrightarrow> weight mk' a b = weight mk a b)"

lemma same_but_loop_count:
  assumes "same_but_loop i mk mk'"
  shows "mk_nodes_count mk' = mk_nodes_count mk" "in_chain mk' = in_chain mk"
  using assms by (simp_all add: same_but_loop_def only_matrix_count)

lemma same_but_loop_set:
  assumes "same_but_loop i mk mk'" "in_chain mk i"
  shows "same_but_loop i mk (set_weight mk' i i w)"
proof -
  have ok: "chain_ok mk'" "in_chain mk' = in_chain mk"
    using assms(1) same_but_loop_count(2)[OF assms(1)] by (simp_all add: same_but_loop_def)
  have "weight (set_weight mk' i i w) a b = weight mk a b"
    if "in_chain mk a" "in_chain mk b" "\<not> (a = i \<and> b = i)" for a b
    using weight_set[OF ok(1), of i i a b w] ok(2) assms that by (auto simp: same_but_loop_def)
  moreover have "only_matrix mk (set_weight mk' i i w)"
    using assms(1) only_matrix_trans[OF _ only_matrix_set] by (simp add: same_but_loop_def)
  ultimately show ?thesis using set_weight_ok[OF ok(1)] by (simp add: same_but_loop_def)
qed

lemma rebalance_ok:
  assumes ok: "chain_ok mk" and i: "in_chain mk i"
  shows "\<exists>mk'. markovRebalanceNode mk i = Inr mk' \<and> same_but_loop i mk mk' \<and>
    weight mk' i i = left_over (weight mk) (mk_nodes_count mk) i (mk_nodes_count mk)"
proof -
  let ?n = "mk_nodes_count mk"
  let ?mk1 = "set_weight mk i i (Fin 100)"
  define I where "I k mk' \<longleftrightarrow> same_but_loop i mk mk' \<and> weight mk' i i = left_over (weight mk) ?n i k"
    for k mk'
  have "same_but_loop i mk mk" using ok by (simp add: same_but_loop_def)
  then have start: "I 1 ?mk1"
    using same_but_loop_set[OF _ i] weight_set[OF ok i i i i] by (simp add: I_def)
  have step: "\<exists>s'. rbind (get_adj s i i) (\<lambda>own. rbind (get_adj s i (c_rem (i + k) (mk_nodes_count s)))
      (\<lambda>w. put_adj s i i (d_sub own w))) = Inr s' \<and> I (k + 1) s'"
    if k: "1 \<le> k" "k \<le> ?n - 1" and s: "I k s" for k s
  proof -
    have sb: "same_but_loop i mk s" "weight s i i = left_over (weight mk) ?n i k" using s by (simp_all add: I_def)
    note cnt = same_but_loop_count[OF sb(1)]
    have sok: "chain_ok s" using sb(1) by (simp add: same_but_loop_def)
    have b: "0 \<le> i" "i < ?n" using i by (simp_all add: in_chain_def)
    let ?j = "(i + k) mod ?n"
    have r: "c_rem (i + k) (mk_nodes_count s) = ?j" using b k cnt by (simp add: c_rem_nonneg)
    have j: "in_chain mk ?j" using b by (simp add: in_chain_def)
    have "?j \<noteq> i"
    proof
      assume "?j = i"
      then have "(i + k) mod ?n = i mod ?n" using b by simp
      then have "?n dvd k" by (simp add: mod_eq_dvd_iff)
      then show False using k zdvd_imp_le by fastforce
    qed
    then have w: "weight s i ?j = weight mk i ?j" using sb(1) i j by (simp add: same_but_loop_def)
    let ?s' = "set_weight s i i (d_sub (weight s i i) (weight mk i ?j))"
    have is': "in_chain s i" "in_chain s ?j" using i j cnt by simp_all
    have "I (k + 1) ?s'"
      using same_but_loop_set[OF sb(1) i] weight_set[OF sok is'(1) is'(1) is'(1) is'(1)] sb(2) k(1)
      by (simp add: I_def left_over_step)
    then show ?thesis
      using sok is' w by (simp add: r get_adj_ok put_adj_ok)
  qed
  have "1 \<le> ?n" using ok by (simp add: chain_ok_def)
  then have "\<exists>s'. each (\<lambda>k s. rbind (get_adj s i i) (\<lambda>own. rbind (get_adj s i (c_rem (i + k) (mk_nodes_count s)))
      (\<lambda>w. put_adj s i i (d_sub own w)))) [1..?n - 1] ?mk1 = Inr s' \<and> I (?n - 1 + 1) s'"
    by (intro each_upto start step) simp_all
  then show ?thesis by (simp add: markovRebalanceNode_def put_adj_ok[OF ok i i] I_def)
qed

section \<open>Setting edges\<close>

definition off_diagonal :: "markov \<Rightarrow> (int \<Rightarrow> int \<Rightarrow> double) \<Rightarrow> bool" where
  "off_diagonal mk f \<longleftrightarrow> (\<forall>a b. in_chain mk a \<longrightarrow> in_chain mk b \<longrightarrow> a \<noteq> b \<longrightarrow> weight mk a b = f a b)"

definition update_weight :: "int \<Rightarrow> int \<Rightarrow> double \<Rightarrow> (int \<Rightarrow> int \<Rightarrow> double) \<Rightarrow> int \<Rightarrow> int \<Rightarrow> double" where
  "update_weight i j w f = (\<lambda>a b. if a = i \<and> b = j then w else f a b)"

lemma balanced_row:
  assumes "balanced mk" "in_chain mk a"
  shows "weight mk a a = left_over (weight mk) (mk_nodes_count mk) a (mk_nodes_count mk)"
  using assms by (simp add: balanced_def in_chain_def)

lemma left_over_rows:
  assumes "in_chain mk a" "\<And>b. in_chain mk b \<Longrightarrow> b \<noteq> a \<Longrightarrow> f a b = g a b"
  shows "left_over f (mk_nodes_count mk) a (mk_nodes_count mk) =
    left_over g (mk_nodes_count mk) a (mk_nodes_count mk)"
  using assms by (intro left_over_cong) (simp_all add: in_chain_def)

lemma edge_step:
  assumes ok: "chain_ok mk" and i: "in_chain mk i" and j: "in_chain mk j" and f: "off_diagonal mk f"
  shows "\<exists>mk'. rbind (put_adj mk i j w) (\<lambda>mk. markovRebalanceNode mk i) = Inr mk' \<and> chain_ok mk' \<and>
    only_matrix mk mk' \<and> off_diagonal mk' (update_weight i j w f) \<and> (balanced mk \<longrightarrow> balanced mk')"
proof -
  let ?mk1 = "set_weight mk i j w" and ?n = "mk_nodes_count mk"
  have ok1: "chain_ok ?mk1" and i1: "in_chain ?mk1 i" using set_weight_ok[OF ok] i by simp_all
  obtain mk' where r: "markovRebalanceNode ?mk1 i = Inr mk'" and sb: "same_but_loop i ?mk1 mk'"
    and own: "weight mk' i i = left_over (weight ?mk1) ?n i ?n"
    using rebalance_ok[OF ok1 i1] by auto
  have om: "only_matrix mk mk'" using sb only_matrix_trans[OF only_matrix_set[of mk i j w]] by (simp add: same_but_loop_def)
  note cnt = only_matrix_count[OF om]
  have w1: "weight ?mk1 a b = (if a = i \<and> b = j then w else weight mk a b)"
    if "in_chain mk a" "in_chain mk b" for a b
    using weight_set[OF ok i j that] .
  have w': "weight mk' a b = weight ?mk1 a b" if "in_chain mk a" "in_chain mk b" "\<not> (a = i \<and> b = i)" for a b
    using sb that by (simp add: same_but_loop_def)
  have bal: "balanced mk'" if "balanced mk"
    unfolding balanced_def cnt
  proof
    fix a assume "a \<in> {0..<?n}"
    then have a: "in_chain mk a" by (simp add: in_chain_def)
    show "weight mk' a a = left_over (weight mk') ?n a ?n"
    proof (cases "a = i")
      case True
      have "left_over (weight ?mk1) ?n i ?n = left_over (weight mk') ?n i ?n"
        using w' i by (intro left_over_rows) auto
      with True own show ?thesis by simp
    next
      case False
      have "left_over (weight mk) ?n a ?n = left_over (weight mk') ?n a ?n"
        using w' w1 a False by (intro left_over_rows) auto
      then show ?thesis using balanced_row[OF that a] w' w1 a False by simp
    qed
  qed
  have "off_diagonal mk' (update_weight i j w f)"
    using w' w1 f by (auto simp: off_diagonal_def cnt update_weight_def)
  moreover have "chain_ok mk'" using sb by (simp add: same_but_loop_def)
  ultimately show ?thesis using r om bal by (simp add: put_adj_ok[OF ok i j])
qed

text \<open>Edges as the manual page writes them.\<close>

type_synonym edge = "nat \<times> nat \<times> nat"

fun print_edge :: "edge \<Rightarrow> string" where
  "print_edge (i, j, w) = print_nat i @ '','' @ print_nat j @ '','' @ print_nat w"

fun print_edges :: "edge list \<Rightarrow> string" where
  "print_edges [] = []"
| "print_edges (x # xs) = '' '' @ print_edge x @ print_edges xs"

fun edge_fits :: "markov \<Rightarrow> edge \<Rightarrow> bool" where
  "edge_fits mk (i, j, w) \<longleftrightarrow> int i < mk_nodes_count mk \<and> int j < mk_nodes_count mk"

fun update_edge :: "edge \<Rightarrow> (int \<Rightarrow> int \<Rightarrow> double) \<Rightarrow> int \<Rightarrow> int \<Rightarrow> double" where
  "update_edge (i, j, w) f = update_weight (int i) (int j) (d_of_int (int w)) f"

lemma comma_free: "digit_free (CHR '','' # r)"
  by (simp add: digit_free_def digit_def isdigit_def tolower_def char_code_def)

lemma sscanf_print_edge:
  assumes "int i \<le> INT_MAX" "int j \<le> INT_MAX" "number_end r"
  shows "sscanf_edge (print_edge (i, j, w) @ r) = Inr (Some (int i), Some (int j), Some (d_of_int (int w)))"
  using assms scan_print_nat[OF comma_free, of i] scan_print_nat[OF comma_free, of j]
  by (simp add: sscanf_edge_def scan_int_def literal_def scan_double_print)

lemma print_edges_end: "number_end (print_edges xs)"
  by (cases xs) (simp_all add: number_end_def digit_free_def digit_def isdigit_def tolower_def char_code_def)

lemma edge_no_space: "CHR '' '' \<notin> set (print_edge x)"
  by (cases x) (simp add: print_nat_no digit_def isdigit_def tolower_def char_code_def)

lemma edge_end: "dropWhile (\<lambda>c. c \<noteq> CHR '' '') (print_edge x @ print_edges xs) = print_edges xs"
proof -
  have "\<forall>c \<in> set (print_edge x). c \<noteq> CHR '' ''" using edge_no_space[of x] by auto
  then show ?thesis by (cases xs) (simp_all add: dropWhile_append2)
qed

lemma edge_start: "dropWhile is_blank ('' '' @ print_edge x @ r) = print_edge x @ r" "print_edge x \<noteq> []"
proof -
  obtain i j w where x: "x = (i, j, w)" by (cases x) auto
  obtain c cs where c: "print_nat i = c # cs" using print_nat_simps(2)[of i] by (cases "print_nat i") auto
  have "digit 10 c \<noteq> None" using print_nat_simps(1)[of i] by (simp add: c all_digits_def)
  then have "\<not> is_blank c" by (auto simp: is_blank_def)
  then show "dropWhile is_blank ('' '' @ print_edge x @ r) = print_edge x @ r" "print_edge x \<noteq> []"
    by (simp_all add: x c) (simp add: is_blank_def)
qed

lemma set_edges_print:
  assumes "chain_ok mk" "\<forall>x \<in> set xs. edge_fits mk x" "off_diagonal mk f"
  shows "\<exists>mk'. set_edges (print_edges xs) i0 j0 w0 mk = Inr mk' \<and> chain_ok mk' \<and> only_matrix mk mk' \<and>
    off_diagonal mk' (fold update_edge xs f) \<and> (balanced mk \<longrightarrow> balanced mk')"
  using assms
proof (induction xs arbitrary: mk f i0 j0 w0)
  case Nil
  then show ?case by (subst set_edges.simps) simp
next
  case (Cons x xs)
  obtain i j w where x: "x = (i, j, w)" by (cases x) auto
  have ij: "in_chain mk (int i)" "in_chain mk (int j)" using Cons.prems(2) by (auto simp: x in_chain_def)
  have "mk_nodes_count mk \<le> INT_MAX" using Cons.prems(1) by (simp add: chain_ok_def nodes_ok_def)
  then have sc: "sscanf_edge (print_edge x @ print_edges xs) = Inr (Some (int i), Some (int j), Some (d_of_int (int w)))"
    using ij sscanf_print_edge[OF _ _ print_edges_end] by (simp add: x in_chain_def del: print_edge.simps)
  obtain mk1 where m1: "rbind (put_adj mk (int i) (int j) (d_of_int (int w))) (\<lambda>mk. markovRebalanceNode mk (int i)) = Inr mk1"
    "chain_ok mk1" "only_matrix mk mk1" "off_diagonal mk1 (update_edge x f)" "balanced mk \<longrightarrow> balanced mk1"
    using edge_step[OF Cons.prems(1) ij Cons.prems(3), of "d_of_int (int w)"] by (auto simp: x)
  have "\<forall>y \<in> set xs. edge_fits mk1 y" using Cons.prems(2) only_matrix_count(1)[OF m1(3)] by fastforce
  from Cons.IH[OF m1(2) this m1(4)]
  obtain mk2 where m2: "set_edges (print_edges xs) (Some (int i)) (Some (int j)) (Some (d_of_int (int w))) mk1 = Inr mk2"
    "chain_ok mk2" "only_matrix mk1 mk2" "off_diagonal mk2 (fold update_edge xs (update_edge x f))"
    "balanced mk1 \<longrightarrow> balanced mk2"
    by blast
  have "set_edges (print_edges (x # xs)) i0 j0 w0 mk = Inr mk2"
    using sc m1(1) m2(1) edge_start(1)[of x "print_edges xs"] edge_start(2)[of x]
    by (subst set_edges.simps) (auto simp: assigned_def edge_end rbind_eq_Inr)
  then show ?case using m1 m2 only_matrix_trans by auto
qed

section \<open>Integer weights add up to 100\<close>

lemma signbit_d_of_int: "\<bar>x\<bar> \<le> 2 ^ 53 \<Longrightarrow> signbit (d_of_int x) \<longleftrightarrow> x < 0"
  by (simp add: d_of_int_exact)

lemma d_sub_int:
  assumes "\<bar>x\<bar> \<le> 2 ^ 53" "\<bar>y\<bar> \<le> 2 ^ 53" "\<bar>x - y\<bar> \<le> 2 ^ 53"
  shows "d_sub (d_of_int x) (d_of_int y) = d_of_int (x - y)"
proof -
  have "d_sub (d_of_int x) (d_of_int y) =
      to_double (signbit (d_of_int x) \<and> signbit (d_neg (d_of_int y))) (of_int (x - y))"
    using assms by (simp add: d_sub_fin d_of_int_exact)
  then have d: "d_sub (d_of_int x) (d_of_int y) = to_double s (of_int (x - y))"
    if "s = (signbit (d_of_int x) \<and> signbit (d_neg (d_of_int y)))" for s
    using that by simp
  show ?thesis
  proof (cases "x = y")
    case True
    then have "\<not> (signbit (d_of_int x) \<and> signbit (d_neg (d_of_int y)))"
      using assms by (cases "y = 0") (simp_all add: d_of_int_exact)
    then show ?thesis using d[of False] by (simp only: d_of_int_def simp_thms)
  next
    case False
    have "rnd (of_int (x - y)) = of_int (x - y)" using assms(3) by (rule rnd_of_int)
    moreover have "(of_int (x - y) :: rat) \<noteq> 0" using False by (simp only: of_int_eq_0_iff)
    ultimately have "to_double b (of_int (x - y)) = to_double False (of_int (x - y))" for b
      unfolding to_double_cases by (simp only: if_False)
    then show ?thesis using d[OF refl] by (simp only: d_of_int_def)
  qed
qed

lemma cyclic_set:
  assumes "0 \<le> i" "i < (n :: int)"
  shows "inj_on (\<lambda>j. (i + j) mod n) {1..n - 1}" "(\<lambda>j. (i + j) mod n) ` {1..n - 1} = {0..<n} - {i}"
proof -
  show inj: "inj_on (\<lambda>j. (i + j) mod n) {1..n - 1}"
  proof (rule inj_onI)
    fix x y assume xy: "x \<in> {1..n - 1}" "y \<in> {1..n - 1}" "(i + x) mod n = (i + y) mod n"
    then have "n dvd x - y" by (simp add: mod_eq_dvd_iff)
    moreover have "\<bar>x - y\<bar> < n" using xy by auto
    ultimately show "x = y" using dvd_imp_le_int[of "x - y" n] by fastforce
  qed
  have "(i + j) mod n \<noteq> i" if "j \<in> {1..n - 1}" for j
  proof
    assume "(i + j) mod n = i"
    then have "(i + j) mod n = i mod n" using assms by simp
    then have "n dvd j" by (simp add: mod_eq_dvd_iff)
    then show False using that zdvd_imp_le by fastforce
  qed
  then have sub: "(\<lambda>j. (i + j) mod n) ` {1..n - 1} \<subseteq> {0..<n} - {i}" using assms by auto
  have "card ((\<lambda>j. (i + j) mod n) ` {1..n - 1}) = card ({0..<n} - {i})"
    using assms by (simp add: card_image[OF inj] card_Diff_singleton)
  then show "(\<lambda>j. (i + j) mod n) ` {1..n - 1} = {0..<n} - {i}"
    by (intro card_subset_eq sub) simp_all
qed

lemma left_over_int:
  assumes "0 \<le> i" "i < n" "\<And>b. 0 \<le> b \<Longrightarrow> b < n \<Longrightarrow> 0 \<le> g b"
    and "(\<Sum>b \<in> {0..<n} - {i}. g b) \<le> 2 ^ 53 - 100"
    and "\<And>b. 0 \<le> b \<Longrightarrow> b < n \<Longrightarrow> b \<noteq> i \<Longrightarrow> f i b = d_of_int (g b)"
  shows "left_over f n i n = d_of_int (100 - (\<Sum>b \<in> {0..<n} - {i}. g b))"
proof -
  note cyc = cyclic_set[OF assms(1,2)]
  let ?S = "\<lambda>k. \<Sum>j \<in> {1..k - 1}. g ((i + j) mod n)"
  have total: "?S n = (\<Sum>b \<in> {0..<n} - {i}. g b)"
    using sum.reindex[OF cyc(1), of g] by (simp add: cyc(2))
  have pos: "0 \<le> g ((i + j) mod n)" for j using assms(1,2) by (intro assms(3)) simp_all
  have le: "?S k \<le> ?S n" if "k \<le> n" for k
    using that pos by (intro sum_mono2) auto
  have nonneg: "0 \<le> ?S k" for k using pos by (intro sum_nonneg) simp
  have "1 \<le> k \<Longrightarrow> k \<le> n \<Longrightarrow> left_over f n i k = d_of_int (100 - ?S k)" for k
  proof (induction "nat k" arbitrary: k)
    case (Suc m)
    show ?case
    proof (cases "k = 1")
      case True
      then show ?thesis using d_of_int_exact[of 100] by simp
    next
      case False
      then have k: "1 \<le> k - 1" using Suc.prems by simp
      let ?j = "k - 1"
      have IH: "left_over f n i ?j = d_of_int (100 - ?S ?j)" using Suc k by (intro Suc.hyps) simp_all
      have "{1..k - 1} = insert ?j {1..?j - 1}" using k by auto
      then have S: "?S k = ?S ?j + g ((i + ?j) mod n)" by simp
      have "(i + ?j) mod n \<in> (\<lambda>j. (i + j) mod n) ` {1..n - 1}" using k Suc.prems by (intro imageI) simp
      then have "(i + ?j) mod n \<in> {0..<n} - {i}" by (simp only: cyc(2))
      then have fw: "f i ((i + ?j) mod n) = d_of_int (g ((i + ?j) mod n))" by (intro assms(5)) auto
      have b: "?S k \<le> 2 ^ 53 - 100" using le[of k] Suc.prems total assms(4) by simp
      have "left_over f n i k = d_sub (d_of_int (100 - ?S ?j)) (d_of_int (g ((i + ?j) mod n)))"
        using left_over_step[OF k, of f n i] IH fw by simp
      also have "\<dots> = d_of_int (100 - ?S ?j - g ((i + ?j) mod n))"
        using b S nonneg[of ?j] nonneg[of k] pos[of ?j] by (intro d_sub_int) linarith+
      finally show ?thesis using S by (simp add: algebra_simps)
    qed
  qed simp
  from this[of n] show ?thesis using assms(1,2) total by simp
qed

section \<open>The choice of the next node\<close>

text \<open>What is left of the drawn number after the first \<open>k\<close> edges.\<close>

definition remaining :: "(int \<Rightarrow> int \<Rightarrow> double) \<Rightarrow> int \<Rightarrow> int \<Rightarrow> double \<Rightarrow> int \<Rightarrow> double" where
  "remaining f n i p k = fold (\<lambda>j p. d_sub p (f i ((i + j) mod n))) [0..k - 1] p"

lemma remaining_step:
  "0 \<le> k \<Longrightarrow> remaining f n i p (k + 1) = d_sub (remaining f n i p k) (f i ((i + k) mod n))"
  by (simp add: remaining_def upto_rec2)

lemma choose_from:
  fixes p :: double
  assumes ok: "chain_ok mk" and i: "in_chain mk i" and a: "0 \<le> a" "a \<le> mk_nodes_count mk - 1"
  defines "n \<equiv> mk_nodes_count mk" and "w \<equiv> \<lambda>k. weight mk i ((i + k) mod mk_nodes_count mk)"
    and "r \<equiv> remaining (weight mk) (mk_nodes_count mk) i p"
  shows "\<exists>k. choose_node mk i [a..n - 1] new (r a) = Inr ((i + k) mod n) \<and> a \<le> k \<and> k < n \<and>
    (\<forall>j. a \<le> j \<and> j < k \<longrightarrow> \<not> d_le (r j) (w j)) \<and> (d_le (r k) (w k) \<or> k = n - 1)"
  using a
proof (induction "nat (n - a)" arbitrary: a new)
  case 0
  then show ?case by (simp add: n_def)
next
  case (Suc m)
  have b: "0 \<le> i" "i < n" using i by (simp_all add: in_chain_def n_def)
  have c: "c_rem (i + a) n = (i + a) mod n" using b Suc.prems by (simp add: c_rem_nonneg n_def)
  have "in_chain mk ((i + a) mod n)" using b by (simp add: in_chain_def n_def)
  then have g: "get_adj mk i ((i + a) mod n) = Inr (w a)"
    using ok i by (simp add: get_adj_ok w_def n_def)
  have l: "[a..n - 1] = a # [a + 1..n - 1]" using Suc.prems by (simp add: upto_rec1 n_def)
  show ?case
  proof (cases "d_le (r a) (w a)")
    case True
    then show ?thesis using g c Suc.prems unfolding l by (intro exI[of _ a]) (auto simp: n_def)
  next
    case False
    have ra: "r (a + 1) = d_sub (r a) (w a)" using Suc.prems by (simp add: r_def w_def remaining_step)
    show ?thesis
    proof (cases "a = n - 1")
      case True
      then have "[a + 1..n - 1] = []" by simp
      then show ?thesis using True False g c b unfolding l by (intro exI[of _ a]) (auto simp: n_def)
    next
      case ne: False
      have "\<exists>k. choose_node mk i [a + 1..n - 1] ((i + a) mod n) (r (a + 1)) = Inr ((i + k) mod n) \<and> a + 1 \<le> k \<and> k < n \<and>
          (\<forall>j. a + 1 \<le> j \<and> j < k \<longrightarrow> \<not> d_le (r j) (w j)) \<and> (d_le (r k) (w k) \<or> k = n - 1)"
        using Suc ne by (intro Suc.hyps) (simp_all add: n_def)
      then obtain k where k: "choose_node mk i [a + 1..n - 1] ((i + a) mod n) (r (a + 1)) = Inr ((i + k) mod n)"
        "a + 1 \<le> k" "k < n" "\<forall>j. a + 1 \<le> j \<and> j < k \<longrightarrow> \<not> d_le (r j) (w j)" "d_le (r k) (w k) \<or> k = n - 1"
        by blast
      have "\<not> d_le (r j) (w j)" if "a \<le> j" "j < k" for j using that k(4) False by (cases "j = a") auto
      then show ?thesis using k False g c unfolding l ra by (intro exI[of _ k]) (simp add: n_def)
    qed
  qed
qed

lemma choose_ok:
  assumes "chain_ok mk" "in_chain mk i"
  shows "\<exists>k. choose_node mk i [0..mk_nodes_count mk - 1] 0 p = Inr ((i + k) mod mk_nodes_count mk) \<and>
    in_chain mk k \<and>
    (\<forall>j. 0 \<le> j \<and> j < k \<longrightarrow> \<not> d_le (remaining (weight mk) (mk_nodes_count mk) i p j)
        (weight mk i ((i + j) mod mk_nodes_count mk))) \<and>
    (d_le (remaining (weight mk) (mk_nodes_count mk) i p k) (weight mk i ((i + k) mod mk_nodes_count mk))
     \<or> k = mk_nodes_count mk - 1)"
proof -
  have "1 \<le> mk_nodes_count mk" using assms(1) by (simp add: chain_ok_def)
  then have "(0::int) \<le> 0" "0 \<le> mk_nodes_count mk - 1" by simp_all
  from choose_from[OF assms this, where p = p and new = 0] show ?thesis by (auto simp: remaining_def in_chain_def)
qed

section \<open>Change of size\<close>

lemma not_fin_double: "\<not> fin x \<Longrightarrow> is_double x"
  by (cases x) (simp_all add: is_double_def)

lemma is_double_d_sub: "is_double (d_sub x y)"
  by (auto simp: d_sub_def d_add_def not_fin_double)

lemma is_double_100: "is_double (Fin 100)"
  using d_of_int_exact[of 100] is_double_to_double[of False 100] by (simp add: d_of_int_def)

lemma d_sub_zero: "is_double s \<Longrightarrow> d_sub s (Fin 0) = s"
  by (cases s) (auto simp: d_sub_def d_add_def to_double_cases is_double_def zero_d_def)

lemma left_over_double: "is_double (left_over f n i k)"
proof -
  have "is_double s \<Longrightarrow> is_double (fold (\<lambda>j s. d_sub s (f i ((i + j) mod n))) js s)" for js s
    by (induction js arbitrary: s) (simp_all add: is_double_d_sub)
  then show ?thesis by (simp add: left_over_def is_double_100)
qed

definition copied :: "markov \<Rightarrow> (int \<Rightarrow> int \<Rightarrow> double) \<Rightarrow> int \<Rightarrow> int \<Rightarrow> double" where
  "copied mk f i j = (if i < mk_nodes_count mk \<and> j < mk_nodes_count mk then f i j else Fin 0)"

lemma copy_row:
  assumes f: "\<And>b. 0 \<le> b \<Longrightarrow> b < mk_nodes_count mk \<Longrightarrow> i < mk_nodes_count mk \<Longrightarrow> get_adj mk i b = Inr (f i b)"
    and i: "0 \<le> i" "i < n" and m: "int (length m) = n * n" "\<And>c. 0 \<le> c \<Longrightarrow> c < n \<Longrightarrow> entry m n i c = Fin 0"
  defines "body \<equiv> \<lambda>j m. let real_j = c_rem (i + j) n
           in if i < mk_nodes_count mk \<and> real_j < mk_nodes_count mk then
                rbind (get_adj mk i real_j) (\<lambda>w.
                rbind (wr m (adj_index i real_j n) w) (\<lambda>m.
                rbind (rd m (adj_index i i n)) (\<lambda>own.
                rbind (rd m (adj_index i real_j n)) (\<lambda>w.
                  wr m (adj_index i i n) (d_sub own w)))))
              else Inr m"
  shows "\<exists>m'. rbind (wr m (adj_index i i n) (Fin 100)) (each body [1..n - 1]) = Inr m' \<and>
    int (length m') = n * n \<and>
    (\<forall>a b. 0 \<le> a \<and> a < n \<and> 0 \<le> b \<and> b < n \<longrightarrow> entry m' n a b =
      (if a \<noteq> i then entry m n a b else if b = i then left_over (copied mk f) n i n else copied mk f i b))"
proof -
  let ?T = "copied mk f" and ?m1 = "m[nat (adj_index i i n) := Fin 100]"
  define J where "J k m' \<longleftrightarrow> int (length m') = n * n \<and>
    (\<forall>a b. 0 \<le> a \<and> a < n \<and> 0 \<le> b \<and> b < n \<longrightarrow> entry m' n a b =
      (if a \<noteq> i then entry m n a b else if b = i then left_over ?T n i k
       else if (b - i) mod n < k then ?T i b else Fin 0))" for k m'
  note bd = adj_index_bounds[OF i i]
  have n: "0 < n" using i by simp
  have diff: "0 < (b - i) mod n" if "b \<noteq> i" "0 \<le> b" "b < n" for b
  proof (rule ccontr)
    assume "\<not> 0 < (b - i) mod n"
    then have "(b - i) mod n = 0" using pos_mod_sign[OF n, of "b - i"] by linarith
    then have "b mod n = i mod n" by (simp add: mod_eq_dvd_iff dvd_eq_mod_eq_0)
    then show False using that i by simp
  qed
  have start: "J 1 ?m1"
    unfolding J_def using m i diff
    by (auto simp: entry_update not_less intro: add1_zle_eq[THEN iffD1]) (metis diff less_le_not_le zless_imp_add1_zle add_0)
  have step: "\<exists>s'. body k s = Inr s' \<and> J (k + 1) s'" if k: "1 \<le> k" "k \<le> n - 1" and s: "J k s" for k s
  proof -
    let ?c = "(i + k) mod n"
    have c: "0 \<le> ?c" "?c < n" using n by simp_all
    have ck: "(?c - i) mod n = k" using k by (simp add: mod_diff_left_eq)
    have ci: "?c \<noteq> i" using ck k by auto
    have other: "(b - i) mod n < k + 1 \<longleftrightarrow> (b - i) mod n < k" if "b \<noteq> ?c" "0 \<le> b" "b < n" for b
    proof -
      have "(b - i) mod n \<noteq> k"
      proof
        assume "(b - i) mod n = k"
        then have "(b - i + i) mod n = (k + i) mod n" by (metis mod_add_left_eq)
        then show False using that by (simp add: add.commute)
      qed
      then show ?thesis by linarith
    qed
    have cr: "c_rem (i + k) n = ?c" using i k n by (simp add: c_rem_nonneg)
    have ls: "int (length s) = n * n" using s by (simp add: J_def)
    note bc = adj_index_bounds[OF i c]
    show ?thesis
    proof (cases "i < mk_nodes_count mk \<and> ?c < mk_nodes_count mk")
      case True
      let ?s1 = "s[nat (adj_index i ?c n) := f i ?c]"
      let ?own = "entry ?s1 n i i" and ?w = "entry ?s1 n i ?c"
      let ?s2 = "?s1[nat (adj_index i i n) := d_sub ?own ?w]"
      have l1: "int (length ?s1) = n * n" using ls by simp
      have "body k s = Inr ?s2"
        unfolding body_def using True cr f[OF c(1)] bc bd ls
        by (simp add: wr_ok rd_ok entry_def Let_def)
      moreover have ow: "?own = left_over ?T n i k" "?w = ?T i ?c"
        using s i c ci True by (simp_all add: J_def entry_update[OF i c] ls copied_def)
      then have own: "d_sub ?own ?w = left_over ?T n i (k + 1)" using k by (simp add: left_over_step)
      have "J (k + 1) ?s2"
        unfolding J_def own
      proof (intro conjI allI impI)
        fix a b assume ab: "0 \<le> a \<and> a < n \<and> 0 \<le> b \<and> b < n"
        then have "entry (?s1[nat (adj_index i i n) := left_over ?T n i (k + 1)]) n a b =
            (if a = i \<and> b = i then left_over ?T n i (k + 1) else if a = i \<and> b = ?c then f i ?c else entry s n a b)"
          by (simp add: entry_update[OF i i _ _ _ _ l1] entry_update[OF i c _ _ _ _ ls])
        then show "entry (?s1[nat (adj_index i i n) := left_over ?T n i (k + 1)]) n a b =
           (if a \<noteq> i then entry m n a b else if b = i then left_over ?T n i (k + 1)
            else if (b - i) mod n < k + 1 then ?T i b else Fin 0)"
          using s ab True ck other[of b] ci by (auto simp: J_def copied_def)
      qed (use ls in simp)
      ultimately show ?thesis by blast
    next
      case False
      then have z: "?T i ?c = Fin 0" by (auto simp: copied_def)
      then have "left_over ?T n i (k + 1) = left_over ?T n i k"
        using k by (simp add: left_over_step d_sub_zero left_over_double)
      moreover have "(if (b - i) mod n < k + 1 then ?T i b else Fin 0) =
          (if (b - i) mod n < k then ?T i b else Fin 0)" if "0 \<le> b" "b < n" for b
        using z ck other[OF _ that] by (cases "b = ?c") auto
      ultimately have "J (k + 1) s" using s by (simp add: J_def)
      then show ?thesis using False cr by (auto simp: body_def Let_def)
    qed
  qed
  have "\<exists>s'. each body [1..n - 1] ?m1 = Inr s' \<and> J (n - 1 + 1) s'"
    using n by (intro each_upto start step) simp_all
  then obtain m' where "each body [1..n - 1] ?m1 = Inr m'" "J n m'" by auto
  then show ?thesis using bd m(1) n by (auto simp: J_def wr_ok)
qed

lemma copy_ok:
  assumes f: "\<And>a b. 0 \<le> a \<Longrightarrow> a < mk_nodes_count mk \<Longrightarrow> 0 \<le> b \<Longrightarrow> b < mk_nodes_count mk \<Longrightarrow> get_adj mk a b = Inr (f a b)"
    and n: "1 \<le> n"
  shows "\<exists>m'. copyAdjacency mk n (replicate (nat (n * n)) (Fin 0)) = Inr m' \<and> int (length m') = n * n \<and>
    (\<forall>a b. 0 \<le> a \<and> a < n \<and> 0 \<le> b \<and> b < n \<longrightarrow> entry m' n a b =
      (if a = b then left_over (copied mk f) n a n else copied mk f a b))"
proof -
  let ?m0 = "replicate (nat (n * n)) (Fin 0)"
  define row where "row i m b = (if i = b then left_over (copied mk f) n i n else copied mk f i b)"
    for i b :: int and m :: "double list"
  define K where "K i m \<longleftrightarrow> int (length m) = n * n \<and>
    (\<forall>a b. 0 \<le> a \<and> a < n \<and> 0 \<le> b \<and> b < n \<longrightarrow> entry m n a b = (if a < i then row a m b else Fin 0))" for i m
  have start: "K 0 ?m0"
    using adj_index_bounds[of _ n] n by (auto simp: K_def entry_def nat_less_iff)
  define body where "body i m = rbind (wr m (adj_index i i n) (Fin 100)) (\<lambda>m.
         each (\<lambda>j m.
           let real_j = c_rem (i + j) n
           in if i < mk_nodes_count mk \<and> real_j < mk_nodes_count mk then
                rbind (get_adj mk i real_j) (\<lambda>w.
                rbind (wr m (adj_index i real_j n) w) (\<lambda>m.
                rbind (rd m (adj_index i i n)) (\<lambda>own.
                rbind (rd m (adj_index i real_j n)) (\<lambda>w.
                  wr m (adj_index i i n) (d_sub own w)))))
              else Inr m) [1..n - 1] m)" for i m
  have step: "\<exists>s'. body i s = Inr s' \<and> K (i + 1) s'" if i: "0 \<le> i" "i \<le> n - 1" and s: "K i s" for i s
  proof -
    have s': "int (length s) = n * n" "\<And>c. 0 \<le> c \<Longrightarrow> c < n \<Longrightarrow> entry s n i c = Fin 0"
      using s i by (simp_all add: K_def)
    have f': "\<And>b. 0 \<le> b \<Longrightarrow> b < mk_nodes_count mk \<Longrightarrow> i < mk_nodes_count mk \<Longrightarrow> get_adj mk i b = Inr (f i b)"
      using f i by simp
    have i': "i < n" using i by simp
    obtain m' where m': "body i s = Inr m'" "int (length m') = n * n"
      "\<forall>a b. 0 \<le> a \<and> a < n \<and> 0 \<le> b \<and> b < n \<longrightarrow> entry m' n a b =
        (if a \<noteq> i then entry s n a b else if b = i then left_over (copied mk f) n i n else copied mk f i b)"
      using copy_row[where f = f, OF f' i(1) i' s'] unfolding body_def by blast
    have "K (i + 1) m'"
      using m'(2,3) s by (auto simp: K_def row_def)
    with m'(1) show ?thesis by blast
  qed
  have "\<exists>s'. each body [0..n - 1] ?m0 = Inr s' \<and> K (n - 1 + 1) s'"
    using n by (intro each_upto start step) simp_all
  then show ?thesis by (auto simp: copyAdjacency_def body_def[abs_def] K_def row_def)
qed

text \<open>The nodes as an array, empty before the first allocation.\<close>

definition node_cells :: "markov \<Rightarrow> markov_node option list" where
  "node_cells mk = (case mk_nodes mk of None \<Rightarrow> [] | Some cs \<Rightarrow> cs)"

definition cells_ok :: "markov \<Rightarrow> bool" where
  "cells_ok mk \<longleftrightarrow> int (length (node_cells mk)) = mk_nodes_count mk \<and> (\<forall>c \<in> set (node_cells mk). c \<noteq> None)"

lemma new_nodes_ok:
  "env_ok e \<Longrightarrow> \<exists>e'. new_nodes k e = (replicate k (Some zero_node), True, e') \<and> quiet e e'"
proof (induction k arbitrary: e)
  case (Suc k)
  obtain e1 where a: "alloc e = (True, e1)" using alloc_ok[OF Suc.prems] by blast
  have q: "quiet e e1" using a by (rule quiet_alloc)
  then have "env_ok e1" using quiet_ok Suc.prems by blast
  then obtain e2 where "new_nodes k e1 = (replicate k (Some zero_node), True, e2)" "quiet e1 e2"
    using Suc.IH by blast
  then show ?case using a quiet_trans[OF q] by simp
qed simp

lemma realloc_nodes_ok:
  assumes "env_ok e" "n \<noteq> 0"
  shows "\<exists>e'. realloc_nodes old n e = (Some (take (nat n) (case old of None \<Rightarrow> [] | Some cs \<Rightarrow> cs) @
      replicate (nat n - length (case old of None \<Rightarrow> [] | Some cs \<Rightarrow> cs)) None), e') \<and> quiet e e'"
  using assms by (simp add: realloc_nodes_def env_ok_def memory_ok_def Let_def quiet_def)

definition fresh_or_old :: "markov \<Rightarrow> nat \<Rightarrow> markov_node" where
  "fresh_or_old mk i = (if int i < mk_nodes_count mk then the (node_cells mk ! i) else zero_node)"

lemma resize_nodes_ok:
  assumes c: "cells_ok mk" and n: "1 \<le> n" "n \<noteq> mk_nodes_count mk" and e: "env_ok e"
  shows "\<exists>e'. resize_nodes mk n e = Inr (True, mk\<lparr>mk_nodes := Some (map (\<lambda>i. Some (fresh_or_old mk i)) [0..<nat n]),
      mk_current_node := (if n \<le> mk_current_node mk \<and> n < mk_nodes_count mk then 0 else mk_current_node mk)\<rparr>, e') \<and> quiet e e'"
proof (cases "mk_nodes_count mk < n")
  case True
  obtain e1 where r: "realloc_nodes (mk_nodes mk) n e = (Some (take (nat n) (node_cells mk) @
      replicate (nat n - length (node_cells mk)) None), e1)" "quiet e e1"
    using realloc_nodes_ok[OF e, of n "mk_nodes mk"] n by (auto simp: node_cells_def)
  have "env_ok e1" using quiet_ok[OF r(2)] e by simp
  then obtain e2 where nn: "new_nodes (nat (n - mk_nodes_count mk)) e1 =
      (replicate (nat (n - mk_nodes_count mk)) (Some zero_node), True, e2)" "quiet e1 e2"
    using new_nodes_ok by blast
  have l: "int (length (node_cells mk)) = mk_nodes_count mk" using c by (simp add: cells_ok_def)
  have "take (nat (mk_nodes_count mk)) (take (nat n) (node_cells mk) @ replicate (nat n - length (node_cells mk)) None) @
      replicate (nat (n - mk_nodes_count mk)) (Some zero_node) = map (\<lambda>i. Some (fresh_or_old mk i)) [0..<nat n]"
  proof (rule nth_equalityI)
    fix i assume "i < length (take (nat (mk_nodes_count mk)) (take (nat n) (node_cells mk) @ replicate (nat n - length (node_cells mk)) None) @
      replicate (nat (n - mk_nodes_count mk)) (Some zero_node))"
    then have i: "i < nat n" using True l by auto
    show "(take (nat (mk_nodes_count mk)) (take (nat n) (node_cells mk) @ replicate (nat n - length (node_cells mk)) None) @
      replicate (nat (n - mk_nodes_count mk)) (Some zero_node)) ! i = map (\<lambda>i. Some (fresh_or_old mk i)) [0..<nat n] ! i"
    proof (cases "i < length (node_cells mk)")
      case True
      then have "node_cells mk ! i \<noteq> None" using c by (auto simp: cells_ok_def)
      then show ?thesis using True i l by (auto simp: nth_append fresh_or_old_def)
    next
      case False
      then show ?thesis using i l True by (auto simp: nth_append fresh_or_old_def)
    qed
  qed (use True l in auto)
  then show ?thesis
    using True r(1) nn(1) quiet_trans[OF r(2) nn(2)]
    by (simp add: resize_nodes_def Let_def)
next
  case False
  have l: "int (length (node_cells mk)) = mk_nodes_count mk" using c by (simp add: cells_ok_def)
  then obtain cs where cs: "mk_nodes mk = Some cs" "node_cells mk = cs"
    using False n by (cases "mk_nodes mk") (auto simp: node_cells_def)
  have "\<exists>e1. each (free_node (mk_nodes mk)) [n..mk_nodes_count mk - 1] e = Inr e1 \<and> quiet e e1"
  proof (rule each_invariant[where I = "quiet e"])
    show "quiet e e" by simp
  next
    fix i e1 assume "i \<in> set [n..mk_nodes_count mk - 1]" "quiet e e1"
    then show "\<exists>e2. free_node (mk_nodes mk) i e1 = Inr e2 \<and> quiet e e2"
      using n l cs quiet_trans[OF _ quiet_release] by (auto simp: free_node_def rd_ok)
  qed
  then obtain e1 where e1: "each (free_node (mk_nodes mk)) [n..mk_nodes_count mk - 1] e = Inr e1" "quiet e e1" by blast
  have "env_ok e1" using quiet_ok[OF e1(2)] e by simp
  moreover have "n \<noteq> 0" using n by simp
  ultimately obtain e2 where r: "realloc_nodes (mk_nodes mk) n e1 = (Some (take (nat n) cs @
      replicate (nat n - length cs) None), e2)" "quiet e1 e2"
    using realloc_nodes_ok[of e1 n "mk_nodes mk"] cs by auto
  have "take (nat n) cs @ replicate (nat n - length cs) None = map (\<lambda>i. Some (fresh_or_old mk i)) [0..<nat n]"
  proof (rule nth_equalityI)
    fix i assume "i < length (take (nat n) cs @ replicate (nat n - length cs) None)"
    then have i: "i < nat n" "i < length cs" using False l cs by auto
    then have "cs ! i \<noteq> None" using c cs by (auto simp: cells_ok_def)
    then show "(take (nat n) cs @ replicate (nat n - length cs) None) ! i = map (\<lambda>i. Some (fresh_or_old mk i)) [0..<nat n] ! i"
      using i l cs by (auto simp: nth_append fresh_or_old_def)
  qed (use False l cs in auto)
  moreover have "n < mk_nodes_count mk" using False n by simp
  ultimately show ?thesis
    using False e1(1) r(1) quiet_trans[OF e1(2) r(2)]
    by (simp add: resize_nodes_def)
qed

definition chain_or_new :: "markov \<Rightarrow> bool" where
  "chain_or_new mk \<longleftrightarrow> chain_ok mk \<or> mk_nodes mk = None \<and> mk_nodes_count mk = 0 \<and> mk_adjacency mk = None"

lemma chain_cells: "chain_or_new mk \<Longrightarrow> cells_ok mk"
  by (auto simp: chain_or_new_def chain_ok_def nodes_ok_def cells_ok_def node_cells_def split: option.splits)

lemma chain_get_adj:
  assumes "chain_or_new mk" "0 \<le> a" "a < mk_nodes_count mk" "0 \<le> b" "b < mk_nodes_count mk"
  shows "get_adj mk a b = Inr (weight mk a b)"
  using assms by (auto simp: chain_or_new_def in_chain_def intro!: get_adj_ok)

lemma resize_ok:
  assumes c: "chain_or_new mk" and n: "1 \<le> n" "n \<noteq> mk_nodes_count mk" "n * n \<le> INT_MAX" and e: "env_ok e"
  shows "\<exists>mk' e'. markovResize mk n e = Inr (0, mk', e') \<and> quiet e e' \<and> chain_ok mk' \<and>
    mk_nodes_count mk' = n \<and> balanced mk' \<and>
    mk_current_node mk' = (if n \<le> mk_current_node mk \<and> n < mk_nodes_count mk then 0 else mk_current_node mk) \<and>
    (\<forall>i. int i < n \<longrightarrow> node_of mk' i = fresh_or_old mk i) \<and>
    off_diagonal mk' (copied mk (weight mk)) \<and>
    mk_change_frequency mk' = mk_change_frequency mk \<and> mk_timerfd mk' = mk_timerfd mk"
proof -
  define mk1 where "mk1 = mk\<lparr>mk_nodes := Some (map (\<lambda>i. Some (fresh_or_old mk i)) [0..<nat n]),
      mk_current_node := (if n \<le> mk_current_node mk \<and> n < mk_nodes_count mk then 0 else mk_current_node mk)\<rparr>"
  have sel: "mk_nodes mk1 = Some (map (\<lambda>i. Some (fresh_or_old mk i)) [0..<nat n])"
    "mk_nodes_count mk1 = mk_nodes_count mk" "mk_adjacency mk1 = mk_adjacency mk"
    "mk_current_node mk1 = (if n \<le> mk_current_node mk \<and> n < mk_nodes_count mk then 0 else mk_current_node mk)"
    "mk_change_frequency mk1 = mk_change_frequency mk" "mk_timerfd mk1 = mk_timerfd mk"
    by (simp_all add: mk1_def)
  obtain e1 where r: "resize_nodes mk n e = Inr (True, mk1, e1)" "quiet e e1"
    using resize_nodes_ok[OF chain_cells[OF c] n(1,2) e] unfolding mk1_def by blast
  have "env_ok e1" using quiet_ok[OF r(2)] e by simp
  then obtain e2 where a: "alloc e1 = (True, e2)" using alloc_ok by blast
  have q2: "quiet e e2" using quiet_trans[OF r(2) quiet_alloc[OF a]] .
  have g: "get_adj mk1 a b = Inr (weight mk a b)"
    if "0 \<le> a" "a < mk_nodes_count mk1" "0 \<le> b" "b < mk_nodes_count mk1" for a b
    using chain_get_adj[OF c, of a b] that by (simp add: get_adj_def sel)
  have cp: "copied mk1 (weight mk) = copied mk (weight mk)" by (simp add: copied_def fun_eq_iff sel)
  obtain m' where m': "copyAdjacency mk1 n (replicate (nat (n * n)) (Fin 0)) = Inr m'" "int (length m') = n * n"
    "\<And>a b. 0 \<le> a \<Longrightarrow> a < n \<Longrightarrow> 0 \<le> b \<Longrightarrow> b < n \<Longrightarrow> entry m' n a b =
      (if a = b then left_over (copied mk (weight mk)) n a n else copied mk (weight mk) a b)"
    using copy_ok[of mk1 "weight mk" n, OF g n(1)] by (auto simp: cp)
  define mk2 where "mk2 = mk1\<lparr>mk_adjacency := Some m', mk_nodes_count := n\<rparr>"
  let ?e3 = "if mk_adjacency mk1 = None then e2 else release e2"
  have run: "markovResize mk n e = Inr (0, mk2, ?e3)"
    using n r(1) a m'(1) by (simp add: markovResize_def mk2_def not_less)
  have q3: "quiet e ?e3" using q2 quiet_trans[OF q2 quiet_release] by simp
  have sel2: "mk_adjacency mk2 = Some m'" "mk_nodes_count mk2 = n" "mk_nodes mk2 = mk_nodes mk1" "mk_current_node mk2 = mk_current_node mk1"
    "weight mk2 = entry m' n" "mk_change_frequency mk2 = mk_change_frequency mk" "mk_timerfd mk2 = mk_timerfd mk"
    by (simp_all add: mk2_def weight_def sel)
  have "n \<le> n * n" using n(1) mult_right_mono[of 1 n n] by simp
  then have "n \<le> INT_MAX" using n(3) by linarith
  moreover have "length m' = nat (n * n)" using m'(2) by linarith
  ultimately have ok: "chain_ok mk2" using n sel by (auto simp: chain_ok_def nodes_ok_def sel2)
  have od: "off_diagonal mk2 (copied mk (weight mk))"
    using m'(3) by (simp add: off_diagonal_def in_chain_def sel2)
  have "balanced mk2"
    unfolding balanced_def sel2
  proof
    fix i assume "i \<in> {0..<n}"
    then have i: "0 \<le> i" "i < n" by auto
    have "left_over (copied mk (weight mk)) n i n = left_over (entry m' n) n i n"
      using i m'(3) by (intro left_over_cong) auto
    then show "entry m' n i i = left_over (entry m' n) n i n" using m'(3)[OF i i] by simp
  qed
  moreover have "node_of mk2 i = fresh_or_old mk i" if "int i < n" for i
    using that by (simp add: node_of_def sel2 sel)
  ultimately show ?thesis using run q3 ok od sel2 sel by (intro exI[of _ mk2] exI[of _ ?e3]) simp
qed

lemma initMarkov_ok:
  assumes "mk_nodes mk = None" "mk_nodes_count mk = 0" "mk_adjacency mk = None" "env_ok e"
  shows "\<exists>mk' e'. initMarkov mk 1 0 f e = Inr (0, mk', e') \<and> chain_ok mk' \<and> balanced mk' \<and>
    mk_nodes_count mk' = 1 \<and> mk_current_node mk' = 0 \<and> mk_change_frequency mk' = f \<and>
    node_of mk' 0 = zero_node \<and> same_oracles e e'"
proof -
  have c: "chain_or_new mk" using assms by (simp add: chain_or_new_def)
  obtain mk1 e1 where r: "markovResize mk 1 e = Inr (0, mk1, e1)" "quiet e e1" "chain_ok mk1"
    "mk_nodes_count mk1 = 1" "balanced mk1" "node_of mk1 0 = fresh_or_old mk 0"
    using resize_ok[OF c, of 1 e] assms by auto
  have e1: "env_ok e1" using quiet_ok[OF r(2)] assms(4) by simp
  let ?mk2 = "mk1\<lparr>mk_current_node := 0, mk_timerfd := e_ret e1 (e_calls e1), mk_change_frequency := f\<rparr>"
  have w: "weight ?mk2 = weight mk1" by (simp add: weight_def)
  have "chain_ok ?mk2" using r(3) by (auto simp: chain_ok_def nodes_ok_def split: option.splits)
  moreover have "balanced ?mk2" using r(5) by (simp add: balanced_def w)
  moreover have "node_of ?mk2 0 = zero_node" using r(6) assms by (simp add: node_of_def fresh_or_old_def)
  moreover have "\<not> e_ret e1 (e_calls e1) < 0" using e1 by (simp add: env_ok_def calls_ok_def not_less)
  then have "initMarkov mk 1 0 f e = Inr (0, ?mk2, e1\<lparr>e_calls := Suc (e_calls e1)\<rparr>)"
    using r(1) by (simp add: initMarkov_def syscall_def Let_def)
  moreover have "same_oracles e (e1\<lparr>e_calls := Suc (e_calls e1)\<rparr>)" using r(2) by (simp add: quiet_def same_oracles_def)
  ultimately show ?thesis using r(4) by (intro exI[of _ ?mk2]) simp
qed

lemma markov_next_eq:
  "markov_next mk i e = rbind (choose_node mk i [0..mk_nodes_count mk - 1] 0 (d_mul (fst (random e)) (Fin 100)))
     (\<lambda>n. Inr (n, snd (random e)))"
  by (simp add: markov_next_def split_beta)

section \<open>Properties\<close>

lemma two_nodes_chain: "chain_ok two_nodes" "in_chain two_nodes 0" "in_chain two_nodes 1"
  by (simp_all add: chain_ok_def nodes_ok_def two_nodes_def in_chain_def)

lemma two_nodes_weight:
  "weight two_nodes 0 0 = Fin 100" "weight two_nodes 0 1 = Fin 0"
  "weight two_nodes 1 0 = Fin 0" "weight two_nodes 1 1 = Fin 100"
  by (simp_all add: weight_def entry_def adj_index_def two_nodes_def)

lemma two_nodes_balanced: "balanced two_nodes"
proof -
  have "{0..<2} = {0, 1 :: int}" by auto
  moreover have "mk_nodes_count two_nodes = 2" by (simp add: two_nodes_def)
  ultimately show ?thesis
    by (simp add: balanced_def left_over_def two_nodes_weight d_sub_zero is_double_100)
qed

text \<open>C12: a list of edges in the syntax of the manual page, all between existing nodes, is read
  back exactly: afterwards every edge between two different nodes has the last weight given for
  it, the others are unchanged, and every self-loop is again what the row leaves of 100.\<close>

theorem edges_applied:
  assumes "chain_ok mk" "balanced mk" "\<forall>x \<in> set xs. edge_fits mk x"
  shows "\<exists>mk'. markovSetEdges mk (print_edges xs) = Inr mk' \<and> chain_ok mk' \<and> balanced mk' \<and>
    only_matrix mk mk' \<and> off_diagonal mk' (fold update_edge xs (weight mk))"
  using set_edges_print[OF assms(1,3), of "weight mk" None None None] assms(2)
  by (auto simp: markovSetEdges_def off_diagonal_def)

theorem edges_applied_witness:
  "\<exists>mk'. markovSetEdges two_nodes '' 0,1,40 1,0,7 0,1,25'' = Inr mk' \<and> balanced mk' \<and>
     weight mk' 0 1 = d_of_int 25 \<and> weight mk' 1 0 = d_of_int 7"
proof -
  have p: "print_edges [(0, 1, 40), (1, 0, 7), (0, 1, 25)] = '' 0,1,40 1,0,7 0,1,25''" by code_simp
  have "\<forall>x \<in> set [(0, 1, 40), (1, 0, 7), (0, 1, 25)]. edge_fits two_nodes x" by (simp add: two_nodes_def)
  then obtain mk' where m: "markovSetEdges two_nodes '' 0,1,40 1,0,7 0,1,25'' = Inr mk'" "balanced mk'"
    "only_matrix two_nodes mk'"
    "off_diagonal mk' (fold update_edge [(0, 1, 40), (1, 0, 7), (0, 1, 25)] (weight two_nodes))"
    using edges_applied[OF two_nodes_chain(1) two_nodes_balanced, of "[(0, 1, 40), (1, 0, 7), (0, 1, 25)]"]
    unfolding p by blast
  have "in_chain mk' 0" "in_chain mk' 1" using two_nodes_chain(2,3) only_matrix_count(2)[OF m(3)] by simp_all
  then have "weight mk' 0 1 = d_of_int 25" "weight mk' 1 0 = d_of_int 7"
    using m(4) by (simp_all add: off_diagonal_def update_weight_def)
  with m show ?thesis by blast
qed

text \<open>C17: \<open>markovRebalanceNode\<close> returns on every node of a chain and makes the edges of its row add up
  to exactly 100 when the others have non-negative integer weights, whatever the order of the
  floating-point subtractions; it changes nothing but the self-loop of the node.\<close>

theorem row_adds_up:
  assumes "chain_ok mk" "in_chain mk i"
    and "\<And>b. in_chain mk b \<Longrightarrow> 0 \<le> g b"
    and "(\<Sum>b \<in> {0..<mk_nodes_count mk} - {i}. g b) \<le> 2 ^ 53 - 100"
    and "\<And>b. in_chain mk b \<Longrightarrow> b \<noteq> i \<Longrightarrow> weight mk i b = d_of_int (g b)"
  shows "\<exists>mk'. markovRebalanceNode mk i = Inr mk' \<and> chain_ok mk' \<and> mk_nodes mk' = mk_nodes mk \<and>
    mk_current_node mk' = mk_current_node mk \<and> mk_nodes_count mk' = mk_nodes_count mk \<and>
    weight mk' i i = d_of_int (100 - (\<Sum>b \<in> {0..<mk_nodes_count mk} - {i}. g b)) \<and>
    (\<forall>a b. in_chain mk a \<and> in_chain mk b \<and> (a \<noteq> i \<or> b \<noteq> i) \<longrightarrow> weight mk' a b = weight mk a b)"
proof -
  obtain mk' where r: "markovRebalanceNode mk i = Inr mk'" "same_but_loop i mk mk'"
    "weight mk' i i = left_over (weight mk) (mk_nodes_count mk) i (mk_nodes_count mk)"
    using rebalance_ok[OF assms(1,2)] by blast
  have "left_over (weight mk) (mk_nodes_count mk) i (mk_nodes_count mk) =
      d_of_int (100 - (\<Sum>b \<in> {0..<mk_nodes_count mk} - {i}. g b))"
    using assms(2-5) by (intro left_over_int) (simp_all add: in_chain_def)
  then show ?thesis using r by (auto simp: same_but_loop_def only_matrix_def)
qed

theorem row_adds_up_witness:
  "\<exists>mk'. markovRebalanceNode (two_nodes\<lparr>mk_adjacency := Some [Fin 0, d_of_int 30, Fin 0, Fin 100]\<rparr>) 0 = Inr mk' \<and>
     weight mk' 0 0 = d_of_int 70 \<and> weight mk' 0 1 = d_of_int 30"
proof -
  let ?mk = "two_nodes\<lparr>mk_adjacency := Some [Fin 0, d_of_int 30, Fin 0, Fin 100]\<rparr>"
  have n: "mk_nodes_count ?mk = 2" by (simp add: two_nodes_def)
  have c: "chain_ok ?mk" "in_chain ?mk 0" "in_chain ?mk 1"
    by (simp_all add: chain_ok_def nodes_ok_def two_nodes_def in_chain_def)
  have w: "weight ?mk 0 1 = d_of_int 30" by (simp add: weight_def entry_def adj_index_def n)
  have "weight ?mk 0 b = d_of_int 30" if "in_chain ?mk b" "b \<noteq> 0" for b
  proof -
    have "b = 1" using that by (auto simp: in_chain_def n)
    then show ?thesis using w by simp
  qed
  moreover have "{0..<2} - {0} = {1 :: int}" by auto
  ultimately show ?thesis using row_adds_up[OF c(1,2), of "\<lambda>_. 30"] c w by (auto simp: n)
qed

text \<open>C16: a change of size keeps the nodes and the edges that still exist, adds nodes as
  \<open>calloc\<close> makes them and without edges to others, gives what the removed edges had back to the
  self-loop, and puts the current node on an existing one.\<close>

theorem resize_keeps:
  assumes "chain_ok mk" "in_chain mk (mk_current_node mk)" "1 \<le> n" "n \<noteq> mk_nodes_count mk"
    and "n * n \<le> INT_MAX" "env_ok e"
  shows "\<exists>mk' e'. markovResize mk n e = Inr (0, mk', e') \<and> chain_ok mk' \<and> balanced mk' \<and>
    mk_nodes_count mk' = n \<and> in_chain mk' (mk_current_node mk') \<and>
    (\<forall>i. int i < n \<longrightarrow> node_of mk' i = (if int i < mk_nodes_count mk then node_of mk i else zero_node)) \<and>
    (\<forall>a b. in_chain mk' a \<and> in_chain mk' b \<and> a \<noteq> b \<longrightarrow>
       weight mk' a b = (if in_chain mk a \<and> in_chain mk b then weight mk a b else Fin 0))"
proof -
  have c: "chain_or_new mk" using assms(1) by (simp add: chain_or_new_def)
  have nodes: "fresh_or_old mk i = (if int i < mk_nodes_count mk then node_of mk i else zero_node)" for i
    using assms(1) by (auto simp: fresh_or_old_def node_of_def node_cells_def chain_ok_def nodes_ok_def split: option.splits)
  obtain mk' e' where r: "markovResize mk n e = Inr (0, mk', e')" "chain_ok mk'" "mk_nodes_count mk' = n" "balanced mk'"
    "mk_current_node mk' = (if n \<le> mk_current_node mk \<and> n < mk_nodes_count mk then 0 else mk_current_node mk)"
    "\<forall>i. int i < n \<longrightarrow> node_of mk' i = fresh_or_old mk i" "off_diagonal mk' (copied mk (weight mk))"
    using resize_ok[OF c assms(3-6)] by blast
  have "in_chain mk' (mk_current_node mk')" using r(3,5) assms(2,3) by (auto simp: in_chain_def)
  moreover have "weight mk' a b = (if in_chain mk a \<and> in_chain mk b then weight mk a b else Fin 0)"
    if "in_chain mk' a \<and> in_chain mk' b \<and> a \<noteq> b" for a b
    using r(7) that by (simp add: off_diagonal_def copied_def in_chain_def)
  ultimately show ?thesis using r nodes by (intro exI[of _ mk'] exI[of _ e']) simp
qed

theorem resize_keeps_witness:
  "\<exists>mk' e'. markovResize two_nodes 3 idle_env = Inr (0, mk', e') \<and> mk_nodes_count mk' = 3 \<and>
     node_of mk' 2 = zero_node \<and> weight mk' 0 2 = Fin 0"
proof -
  have n: "mk_nodes_count two_nodes = 2" "mk_current_node two_nodes = 0" by (simp_all add: two_nodes_def)
  then obtain mk' e' where r: "markovResize two_nodes 3 idle_env = Inr (0, mk', e')" "mk_nodes_count mk' = 3"
    "\<forall>i. int i < 3 \<longrightarrow> node_of mk' i = (if int i < 2 then node_of two_nodes i else zero_node)"
    "\<forall>a b. in_chain mk' a \<and> in_chain mk' b \<and> a \<noteq> b \<longrightarrow>
       weight mk' a b = (if in_chain two_nodes a \<and> in_chain two_nodes b then weight two_nodes a b else Fin 0)"
    using resize_keeps[of two_nodes 3 idle_env] two_nodes_chain idle_env_ok by auto
  have "node_of mk' 2 = zero_node" using r(3)[rule_format, of 2] by simp
  moreover have "weight mk' 0 2 = Fin 0"
    using r(4)[rule_format, of 0 2] by (simp add: in_chain_def r(2) n)
  ultimately show ?thesis using r(1,2) by blast
qed

text \<open>C15: the next node always exists. It is the first one, in cyclic order from the current node,
  whose edge weight reaches what the earlier edges left of the drawn number, or the last one.\<close>

theorem next_node:
  assumes "chain_ok mk" "in_chain mk i"
  shows "\<exists>k. markov_next mk i e = Inr ((i + k) mod mk_nodes_count mk, snd (random e)) \<and> in_chain mk k \<and>
    (\<forall>j. 0 \<le> j \<and> j < k \<longrightarrow> \<not> d_le (remaining (weight mk) (mk_nodes_count mk) i (d_mul (fst (random e)) (Fin 100)) j)
        (weight mk i ((i + j) mod mk_nodes_count mk))) \<and>
    (d_le (remaining (weight mk) (mk_nodes_count mk) i (d_mul (fst (random e)) (Fin 100)) k)
       (weight mk i ((i + k) mod mk_nodes_count mk)) \<or> k = mk_nodes_count mk - 1)"
  using choose_ok[OF assms, of "d_mul (fst (random e)) (Fin 100)"]
  by (auto simp: markov_next_eq)

theorem next_node_witness:
  "\<exists>k. markov_next two_nodes 1 idle_env = Inr ((1 + k) mod 2, snd (random idle_env)) \<and> in_chain two_nodes k"
  using next_node[OF two_nodes_chain(1,3), of idle_env] by (auto simp: two_nodes_def)

lemma drawn_below_100: "d_le (d_mul (fst (random e)) (Fin 100)) (Fin 100)"
proof -
  let ?v = "rng_val (rng_step (e_rng e))"
  have v: "0 \<le> ?v" "?v \<le> 1" using rng_val_bounds[of "rng_step (e_rng e)"] by simp_all
  have r100: "rnd 100 = 100" using rnd_of_int[of 100] by simp
  have "0 \<le> rnd (?v * 100)" "rnd (?v * 100) \<le> 100"
    using v r100 by (simp add: rnd_pos, intro rnd_le) simp_all
  moreover from this have "\<bar>rnd (?v * 100)\<bar> < dlimit" using small_lt_limit[of "rnd (?v * 100)" 7] by simp
  ultimately have "fin (to_double s (?v * 100))" "val (to_double s (?v * 100)) \<le> 100" for s
    by (simp_all add: fin_to_double val_to_double)
  then show ?thesis by (simp add: random_def drand48_def d_mul_fin d_le_fin)
qed

text \<open>C40: a node whose self-loop has the full weight of 100 is never left.\<close>

theorem full_loop_stays:
  assumes "chain_ok mk" "in_chain mk i" "weight mk i i = Fin 100"
  shows "markov_next mk i e = Inr (i, snd (random e))"
proof -
  let ?p = "d_mul (fst (random e)) (Fin 100)"
  obtain k where k: "choose_node mk i [0..mk_nodes_count mk - 1] 0 ?p = Inr ((i + k) mod mk_nodes_count mk)"
    "0 \<le> k" "\<forall>j. 0 \<le> j \<and> j < k \<longrightarrow> \<not> d_le (remaining (weight mk) (mk_nodes_count mk) i ?p j)
        (weight mk i ((i + j) mod mk_nodes_count mk))"
    using choose_ok[OF assms(1,2), of ?p] by (auto simp: in_chain_def)
  have "(i + 0) mod mk_nodes_count mk = i" using assms(2) by (simp add: in_chain_def)
  then have "\<not> 0 < k" using k(3)[rule_format, of 0] assms(3) drawn_below_100[of e] by (auto simp: remaining_def)
  then have "k = 0" using k(2) by simp
  then show ?thesis using k(1) assms(2)
    by (simp add: markov_next_eq in_chain_def)
qed

theorem full_loop_stays_witness: "markov_next two_nodes 1 idle_env = Inr (1, snd (random idle_env))"
  using full_loop_stays[OF two_nodes_chain(1,3)] by (simp add: two_nodes_weight)

end
