(* ===== verification/Conn.thy ===== *)
theory Conn
  imports Markov Queue
begin

text \<open>
  The connection structure of the plugin (\<open>struct vde_wirefilter_conn\<close> of \<open>includes/wf_conn.h\<close>),
  the output to management clients (\<open>print_mgmt\<close>) and \<open>markovStep\<close>, which uses both. The nested
  connection, the thread handle and the mutex are not part of the state: what the program does
  with them is an event of the environment.
\<close>

section \<open>State\<close>

text \<open>\<open>bl_message\<close> is the block the message lives in, terminators included.\<close>

record blink =
  bl_socket_fd :: int
  bl_path :: string
  bl_message :: "string option"
  bl_id_len :: int

record management =
  mg_socket_fd :: int
  mg_mode :: u32
  mg_count :: int
  mg_connections :: "int list"
  mg_debug_level :: "int list"
  mg_socket_name :: string

record conn =
  cn_send_pipe :: "int \<times> int"
  cn_receive_pipe :: "int \<times> int"
  cn_queue :: queue
  cn_markov :: markov
  cn_blink :: blink
  cn_bursty_loss_status :: "dir \<Rightarrow> byte"
  cn_bandwidth_next :: "dir \<Rightarrow> u64"
  cn_speed_next :: "dir \<Rightarrow> u64"
  cn_speed_timer :: int
  cn_management :: management

definition NUL :: char where
  "NUL = CHR 0x00"

text \<open>The C string at the start of a block.\<close>

definition c_string :: "string \<Rightarrow> string res" where
  "c_string block = (if NUL \<in> set block then Inr (takeWhile (\<lambda>c. c \<noteq> NUL) block) else Inl OutOfBounds)"

text \<open>The connection as \<open>calloc\<close> makes it.\<close>

definition zero_queue :: queue where
  "zero_queue = \<lparr>q_queue = None, q_size = 0, q_max_size = 0, q_byte_size = (\<lambda>_. 0), q_timerfd = 0,
     q_fifoness = 0, q_max_forward_time = 0, q_counter = 0\<rparr>"

definition zero_markov :: markov where
  "zero_markov = \<lparr>mk_nodes = None, mk_current_node = 0, mk_nodes_count = 0, mk_adjacency = None,
     mk_change_frequency = 0, mk_timerfd = 0\<rparr>"

definition zero_conn :: conn where
  "zero_conn = \<lparr>cn_send_pipe = (0, 0), cn_receive_pipe = (0, 0), cn_queue = zero_queue,
     cn_markov = zero_markov,
     cn_blink = \<lparr>bl_socket_fd = 0, bl_path = [], bl_message = None, bl_id_len = 0\<rparr>,
     cn_bursty_loss_status = (\<lambda>_. 0), cn_bandwidth_next = (\<lambda>_. 0), cn_speed_next = (\<lambda>_. 0),
     cn_speed_timer = 0,
     cn_management = \<lparr>mg_socket_fd = 0, mg_mode = 0, mg_count = 0,
       mg_connections = replicate (nat MNGM_MAX_CONN) 0, mg_debug_level = replicate (nat MNGM_MAX_CONN) 0,
       mg_socket_name = []\<rparr>\<rparr>"

section \<open>Output to management clients\<close>

definition MNGM_CMD_MAX_LEN :: nat where
  "MNGM_CMD_MAX_LEN = 128"

definition NL :: char where
  "NL = CHR 0x0A"

text \<open>\<open>snprintf\<close> of a text into \<open>n\<close> bytes keeps the first \<open>n - 1\<close> characters.\<close>

definition snprintf :: "nat \<Rightarrow> string \<Rightarrow> string" where
  "snprintf n text = take (n - 1) text"

text \<open>Text after the formats are expanded; the result of \<open>write\<close> is returned.\<close>

definition print_mgmt :: "int \<Rightarrow> string \<Rightarrow> env \<Rightarrow> int \<times> env" where
  "print_mgmt fd text e = syscall (emit (MgmtWrite fd (snprintf MNGM_CMD_MAX_LEN text @ [NL])) e)"

definition put_mgmt :: "int \<Rightarrow> string \<Rightarrow> env \<Rightarrow> env" where
  "put_mgmt fd text e = snd (print_mgmt fd text e)"

text \<open>\<open>%0wd\<close>.\<close>

definition print_zero_padded :: "nat \<Rightarrow> int \<Rightarrow> string" where
  "print_zero_padded w i =
     (let s = (if i < 0 then ''-'' else []); ds = print_nat (nat \<bar>i\<bar>)
      in s @ replicate (w - length s - length ds) CHR ''0'' @ ds)"

text \<open>A string in double quotes; a missing name is empty.\<close>

definition quoted :: "string option \<Rightarrow> string" where
  "quoted name = CHR 0x22 # (case name of None \<Rightarrow> [] | Some s \<Rightarrow> s) @ [CHR 0x22]"

section \<open>The step of the chain\<close>

definition step_text :: "int \<Rightarrow> int \<Rightarrow> string option \<Rightarrow> string option \<Rightarrow> string" where
  "step_text old new old_name new_name =
     print_zero_padded 4 (3800 + new) @ '' Node '' @ print_int old @ '' '' @ quoted old_name @
     '' -> '' @ print_int new @ '' '' @ quoted new_name"

definition report_step :: "conn \<Rightarrow> int \<Rightarrow> int \<Rightarrow> env \<Rightarrow> env res" where
  "report_step cn new_node i e =
     rbind (rd (mg_debug_level (cn_management cn)) i) (\<lambda>level.
       if 0 < level then
         rbind (rd (mg_connections (cn_management cn)) i) (\<lambda>fd.
         rbind (markov_current (cn_markov cn)) (\<lambda>old.
         rbind (get_node (cn_markov cn) new_node) (\<lambda>new.
           Inr (put_mgmt fd (step_text (mk_current_node (cn_markov cn)) new_node
                               (mn_name old) (mn_name new)) e))))
       else Inr e)"

definition markovStep :: "conn \<Rightarrow> int \<Rightarrow> env \<Rightarrow> (conn \<times> env) res" where
  "markovStep cn start_node e =
     rbind (markov_next (cn_markov cn) start_node e) (\<lambda>(new_node, e).
     rbind (if mk_current_node (cn_markov cn) \<noteq> new_node
            then each (report_step cn new_node) [0..mg_count (cn_management cn) - 1] e
            else Inr e) (\<lambda>e.
       Inr (cn\<lparr>cn_markov := (cn_markov cn)\<lparr>mk_current_node := new_node\<rparr>\<rparr>, e)))"

end
