(* ===== verification/Handlers.thy ===== *)
theory Handlers
  imports Conn
begin

text \<open>
  What happens to a packet (second half of \<open>libvdeplug_wirefilter.c\<close>): the handlers of the wire
  parameters, \<open>handlePacket\<close>, which runs them in order on every copy of the packet, and
  \<open>sendPacket\<close>. Where C leaves the order of evaluation open (\<open>drand48() < computeWireValue(...)\<close>)
  the left operand is evaluated first.
\<close>

unbundle bit_operations_syntax

section \<open>Common parts\<close>

definition DROP :: int where
  "DROP = - 1"

definition FORWARD :: int where
  "FORWARD = 0"

definition current_node :: "conn \<Rightarrow> markov_node res" where
  "current_node cn = markov_current (cn_markov cn)"

text \<open>\<open>computeWireValue\<close> on the current node and the generator of the environment.\<close>

definition wire :: "libm \<Rightarrow> markov_node \<Rightarrow> tag \<Rightarrow> dir \<Rightarrow> env \<Rightarrow> (double \<times> env) res" where
  "wire m node tag d e =
     rbind (computeWireValue m node tag d (e_rng e)) (\<lambda>(x, s). Inr (x, e\<lparr>e_rng := s\<rparr>))"

section \<open>Handlers that drop\<close>

definition mtuHandler :: "conn \<Rightarrow> packet \<Rightarrow> int res" where
  "mtuHandler cn p =
     rbind (current_node cn) (\<lambda>node.
       let mtu = minWireValue node MTU (pk_direction p)
       in Inr (if d_lt (Fin 0) mtu \<and> d_lt mtu (d_of_u64 (pk_len p)) then DROP else FORWARD))"

definition set_bursty :: "conn \<Rightarrow> dir \<Rightarrow> byte \<Rightarrow> conn" where
  "set_bursty cn d v = cn\<lparr>cn_bursty_loss_status := (cn_bursty_loss_status cn)(d := v)\<rparr>"

text \<open>The Gilbert model: the next state of the two-state chain of a direction.\<close>

definition gilbert :: "libm \<Rightarrow> markov_node \<Rightarrow> dir \<Rightarrow> conn \<Rightarrow> env \<Rightarrow> (conn \<times> env) res" where
  "gilbert m node d cn e =
     rbind (wire m node LOSS d e) (\<lambda>(loss, e).
     rbind (wire m node BURSTYLOSS d e) (\<lambda>(burst_len, e).
       let loss_val = d_div loss (Fin 100)
       in if cn_bursty_loss_status cn d = OK_BURST then
            let (u, e) = random e
            in Inr (if d_lt u (d_div loss_val (d_mul burst_len (d_sub (Fin 1) loss_val)))
                    then set_bursty cn d FAULTY_BURST else cn, e)
          else if cn_bursty_loss_status cn d = FAULTY_BURST then
            let (u, e) = random e
            in Inr (if d_lt u (d_div (Fin 1) burst_len) then set_bursty cn d OK_BURST else cn, e)
          else Inr (cn, e)))"

definition lossHandler :: "libm \<Rightarrow> conn \<Rightarrow> packet \<Rightarrow> env \<Rightarrow> (int \<times> conn \<times> env) res" where
  "lossHandler m cn p e =
     rbind (current_node cn) (\<lambda>node.
       let d = pk_direction p
       in if d_le (Fin 100) (minWireValue node LOSS d) then Inr (DROP, cn, e)
          else if d_lt (Fin 0) (maxWireValue node BURSTYLOSS d) then
            rbind (gilbert m node d cn e) (\<lambda>(cn, e).
              Inr (if cn_bursty_loss_status cn d \<noteq> OK_BURST then DROP else FORWARD, cn, e))
          else
            let cn = set_bursty cn d OK_BURST; (u, e) = random e
            in rbind (wire m node LOSS d e) (\<lambda>(loss, e).
                 Inr (if d_lt u (d_div loss (Fin 100)) then DROP else FORWARD, cn, e)))"

definition bufferSizeHandler :: "libm \<Rightarrow> conn \<Rightarrow> packet \<Rightarrow> env \<Rightarrow> (int \<times> env) res" where
  "bufferSizeHandler m cn p e =
     rbind (current_node cn) (\<lambda>node.
       let d = pk_direction p
       in if \<not> d_eq (maxWireValue node CHANBUFSIZE d) (Fin 0) then
            rbind (wire m node CHANBUFSIZE d e) (\<lambda>(buffer_max_size, e).
              Inr (if d_lt buffer_max_size (d_of_u64 (ucast (q_byte_size (cn_queue cn) d) + pk_len p))
                   then DROP else FORWARD, e))
          else Inr (FORWARD, e))"

section \<open>Duplicates\<close>

text \<open>The counter is an \<open>int\<close>; counting past \<open>INT_MAX\<close> is an overflow.\<close>

function count_duplicates :: "libm \<Rightarrow> markov_node \<Rightarrow> dir \<Rightarrow> int \<Rightarrow> env \<Rightarrow> (int \<times> env) res" where
  "count_duplicates m node d n e =
     (let (u, e) = random e
      in rbind (wire m node DUP d e) (\<lambda>(dup, e).
           if d_lt u (d_div dup (Fin 100)) then
             if INT_MAX \<le> n then Inl SignedOverflow else count_duplicates m node d (n + 1) e
           else Inr (n, e)))"
  by pat_completeness auto
termination
  by (relation "measure (\<lambda>(m, node, d, n, e). nat (INT_MAX - n))") auto

declare count_duplicates.simps [simp del]

definition duplicatesHandler :: "libm \<Rightarrow> conn \<Rightarrow> packet \<Rightarrow> env \<Rightarrow> (int \<times> env) res" where
  "duplicatesHandler m cn p e =
     rbind (current_node cn) (\<lambda>node.
       if d_lt (Fin 0) (maxWireValue node DUP (pk_direction p))
       then count_duplicates m node (pk_direction p) 0 e else Inr (0, e))"

section \<open>Handlers that delay\<close>

text \<open>
  A next timestamp plus a time in milliseconds: the sum is computed as a \<open>double\<close> and converted
  back.
\<close>

definition advance :: "u64 \<Rightarrow> double \<Rightarrow> u64 res" where
  "advance t ms = d_to_u64 (d_add (d_of_u64 t) (MS_TO_NS ms))"

definition transmission_ms :: "packet \<Rightarrow> double \<Rightarrow> double" where
  "transmission_ms p rate = d_div (d_of_u64 (pk_len p * 1000)) rate"

definition bandwidthHandler :: "libm \<Rightarrow> conn \<Rightarrow> packet \<Rightarrow> env \<Rightarrow> (double \<times> conn \<times> env) res" where
  "bandwidthHandler m cn p e =
     rbind (current_node cn) (\<lambda>node.
       let d = pk_direction p
       in if d_lt (Fin 0) (maxWireValue node BANDWIDTH d) then
            rbind (wire m node BANDWIDTH d e) (\<lambda>(bandwidth, e).
              if d_le bandwidth (Fin 0) then Inr (d_of_int DROP, cn, e)
              else
                rbind (now_ns e) (\<lambda>(now, e).
                  let send_time_ms = transmission_ms p bandwidth;
                      next = cn_bandwidth_next cn d;
                      (next, delay_ms) =
                        (if next < now then (now, send_time_ms)
                         else (next, d_add (d_of_u64 (NS_TO_MS (next - now))) send_time_ms))
                  in rbind (advance next send_time_ms) (\<lambda>next.
                       Inr (delay_ms, cn\<lparr>cn_bandwidth_next := (cn_bandwidth_next cn)(d := next)\<rparr>, e))))
          else Inr (Fin 0, cn, e))"

definition speedHandler :: "libm \<Rightarrow> conn \<Rightarrow> packet \<Rightarrow> env \<Rightarrow> (double \<times> conn \<times> env) res" where
  "speedHandler m cn p e =
     rbind (current_node cn) (\<lambda>node.
       let d = pk_direction p
       in if d_lt (Fin 0) (maxWireValue node SPEED d) then
            rbind (wire m node SPEED d e) (\<lambda>(speed, e).
              if d_le speed (Fin 0) then Inr (d_of_int DROP, cn, e)
              else
                rbind (now_ns e) (\<lambda>(now, e).
                  let send_time_ms = transmission_ms p speed;
                      next = cn_speed_next cn d;
                      next = (if next < now then now else next)
                  in rbind (advance next send_time_ms) (\<lambda>next.
                       Inr (send_time_ms, cn\<lparr>cn_speed_next := (cn_speed_next cn)(d := next)\<rparr>, e))))
          else Inr (Fin 0, cn, e))"

definition delayHandler :: "libm \<Rightarrow> conn \<Rightarrow> packet \<Rightarrow> env \<Rightarrow> (double \<times> env) res" where
  "delayHandler m cn p e =
     rbind (current_node cn) (\<lambda>node.
       let d = pk_direction p
       in if d_lt (Fin 0) (maxWireValue node DELAY d) then
            rbind (wire m node DELAY d e) (\<lambda>(delay_value, e).
              Inr (if d_lt (Fin 0) delay_value then delay_value else Fin 0, e))
          else Inr (Fin 0, e))"

section \<open>Noise\<close>

function count_broken :: "double \<Rightarrow> int \<Rightarrow> env \<Rightarrow> (int \<times> env) res" where
  "count_broken limit n e =
     (let (u, e) = random e
      in if d_lt (d_mul (d_mul u (Fin 8)) (d_of_int MEGA)) limit then
           if INT_MAX \<le> n then Inl SignedOverflow else count_broken limit (n + 1) e
         else Inr (n, e))"
  by pat_completeness auto
termination
  by (relation "measure (\<lambda>(limit, n, e). nat (INT_MAX - n))") auto

declare count_broken.simps [simp del]

text \<open>One bit of the payload, at least two bytes from its start, is inverted.\<close>

definition flip_bit :: "byte list \<Rightarrow> int \<Rightarrow> byte list res" where
  "flip_bit buf to_flip_bit =
     rbind (rd buf (to_flip_bit div 8 + 2)) (\<lambda>b.
       wr buf (to_flip_bit div 8 + 2) (b XOR push_bit (nat (to_flip_bit mod 8)) 1))"

definition break_bit :: "u64 \<Rightarrow> int \<Rightarrow> byte list \<times> env \<Rightarrow> (byte list \<times> env) res" where
  "break_bit len i = (\<lambda>(buf, e).
     let (u, e) = random e
     in rbind (d_to_int (d_mul (d_mul u (d_of_u64 len)) (Fin 8))) (\<lambda>to_flip_bit.
        rbind (flip_bit buf to_flip_bit) (\<lambda>buf. Inr (buf, e))))"

definition noiseHandler :: "libm \<Rightarrow> conn \<Rightarrow> packet \<Rightarrow> env \<Rightarrow> (packet \<times> env) res" where
  "noiseHandler m cn p e =
     rbind (current_node cn) (\<lambda>node.
       let d = pk_direction p
       in if d_lt (Fin 0) (maxWireValue node NOISE d) then
            rbind (wire m node NOISE d e) (\<lambda>(noise, e).
            rbind (count_broken (d_mul (d_of_u64 ((pk_len p - 2) * 8)) noise) 0 e) (\<lambda>(broken_bits, e).
            rbind (each (break_bit (pk_len p)) [0..broken_bits - 1] (pk_buf p, e)) (\<lambda>(buf, e).
              Inr (p\<lparr>pk_buf := buf\<rparr>, e))))
          else Inr (p, e))"

section \<open>Sending\<close>

text \<open>Characters written into a block from an offset on.\<close>

definition overwrite :: "string \<Rightarrow> int \<Rightarrow> string \<Rightarrow> string res" where
  "overwrite block off s =
     (if 0 \<le> off \<and> off + int (length s) \<le> int (length block)
      then Inr (take (nat off) block @ s @ drop (nat off + length s) block) else Inl OutOfBounds)"

definition blink_text :: "packet \<Rightarrow> string" where
  "blink_text p = (case pk_direction p of LEFT_TO_RIGHT \<Rightarrow> ''LR'' | RIGHT_TO_LEFT \<Rightarrow> ''RL'') @ '' '' @
     print_int (sint (pk_len p)) @ [NL]"

definition send_blink :: "conn \<Rightarrow> packet \<Rightarrow> env \<Rightarrow> (conn \<times> env) res" where
  "send_blink cn p e =
     (let b = cn_blink cn
      in rbind (deref (bl_message b)) (\<lambda>block.
         rbind (overwrite block (bl_id_len b + 1)
                  (snprintf BLINK_MESSAGE_CONTENT_SIZE (blink_text p) @ [NUL])) (\<lambda>block.
         rbind (c_string block) (\<lambda>text.
           let (_, e) = syscall (emit (BlinkSend text) e)
           in Inr (cn\<lparr>cn_blink := b\<lparr>bl_message := Some block\<rparr>\<rparr>, e)))))"

text \<open>
  A packet for the right side goes to the nested connection; one for the left side is written to
  the receive pipe after \<open>receive_lock\<close> is taken. Only the packet itself is freed, not its
  payload.
\<close>

definition sendPacket :: "conn \<Rightarrow> packet \<Rightarrow> env \<Rightarrow> (conn \<times> env) res" where
  "sendPacket cn p e =
     rbind (if bl_socket_fd (cn_blink cn) \<noteq> 0 then send_blink cn p e else Inr (cn, e)) (\<lambda>(cn, e).
       if length (pk_buf p) < unat (pk_len p) then Inl OutOfBounds
       else
         let data = take (unat (pk_len p)) (pk_buf p);
             (_, e) = syscall (emit (case pk_direction p of
                                       LEFT_TO_RIGHT \<Rightarrow> VdeSend data (pk_flags p)
                                     | RIGHT_TO_LEFT \<Rightarrow> PipeWrite data) e)
         in Inr (cn, release e))"

section \<open>All handlers in order\<close>

text \<open>One copy of the packet; the result tells whether the loop over the copies goes on.\<close>

definition handle_copy :: "libm \<Rightarrow> packet \<Rightarrow> conn \<Rightarrow> env \<Rightarrow> (bool \<times> conn \<times> env) res" where
  "handle_copy m packet cn e =
     rbind (packetCopy packet e) (\<lambda>(copy, e).
     rbind (deref copy) (\<lambda>to_send.
     rbind (bufferSizeHandler m cn to_send e) (\<lambda>(verdict, e).
       if verdict = DROP then Inr (False, cn, e)
       else
         rbind (speedHandler m cn to_send e) (\<lambda>(speed_ms, cn, e).
         rbind (bandwidthHandler m cn to_send e) (\<lambda>(bandwidth_ms, cn, e).
         rbind (delayHandler m cn to_send e) (\<lambda>(wait_ms, e).
           let delay_ms = d_add (d_add (d_add (Fin 0) speed_ms) bandwidth_ms) wait_ms
           in rbind (noiseHandler m cn to_send e) (\<lambda>(to_send, e).
                if d_lt (Fin 0) delay_ms
                   \<or> q_fifoness (cn_queue cn) = FIFO \<and> 0 < q_size (cn_queue cn) then
                  rbind (now_ns e) (\<lambda>(now, e).
                  rbind (advance now delay_ms) (\<lambda>forward_time.
                  rbind (enqueue (cn_queue cn) to_send forward_time e) (\<lambda>(q, e).
                  rbind (setQueueTimer q e) (\<lambda>e.
                    Inr (True, cn\<lparr>cn_queue := q\<rparr>, e)))))
                else
                  rbind (sendPacket cn to_send e) (\<lambda>(cn, e). Inr (True, cn, e)))))))))"

fun handle_copies :: "libm \<Rightarrow> packet \<Rightarrow> nat \<Rightarrow> conn \<Rightarrow> env \<Rightarrow> (conn \<times> env) res" where
  "handle_copies m packet 0 cn e = Inr (cn, e)"
| "handle_copies m packet (Suc k) cn e =
     rbind (handle_copy m packet cn e) (\<lambda>(continue, cn, e).
       if continue then handle_copies m packet k cn e else Inr (cn, e))"

definition handlePacket :: "libm \<Rightarrow> conn \<Rightarrow> packet \<Rightarrow> env \<Rightarrow> (conn \<times> env) res" where
  "handlePacket m cn packet e =
     rbind (mtuHandler cn packet) (\<lambda>verdict.
       if verdict = DROP then Inr (cn, e)
       else
         rbind (lossHandler m cn packet e) (\<lambda>(verdict, cn, e).
           if verdict = DROP then Inr (cn, e)
           else
             rbind (duplicatesHandler m cn packet e) (\<lambda>(duplicates, e).
               if INT_MAX \<le> duplicates then Inl SignedOverflow
               else handle_copies m packet (nat (1 + duplicates)) cn e)))"

end
