(* ===== verification/Handlers_Props.thy ===== *)
theory Handlers_Props
  imports Handlers Queue_Spec Markov_Props
begin

text \<open>
  What the handlers do to a packet: which packets are dropped, which are sent on unchanged, when
  a delayed packet is due, what noise does, and what happens to the order of packets.
\<close>

section \<open>Values that do not vary\<close>

lemma random_eq: "random e = (Fin (rng_val (rng_step (e_rng e))), e\<lparr>e_rng := rng_step (e_rng e)\<rparr>)"
  by (simp add: random_def drand48_def)

text \<open>A tag without a value.\<close>

definition unset :: "markov_node \<Rightarrow> dir \<Rightarrow> tag \<Rightarrow> bool" where
  "unset node d t \<longleftrightarrow> mn_value node t d = zero_value"

text \<open>A tag with a value and no variation.\<close>

definition fixed :: "markov_node \<Rightarrow> dir \<Rightarrow> tag \<Rightarrow> double \<Rightarrow> bool" where
  "fixed node d t v \<longleftrightarrow> wv_value (mn_value node t d) = v \<and> wv_plus (mn_value node t d) = Fin 0"

lemma zero_sums [simp]: "d_sub (Fin 0) (Fin 0) = Fin 0" "d_add (Fin 0) (Fin 0) = Fin 0"
  by (simp_all add: d_sub_def d_add_def to_double_cases zero_d_def)

lemma unset_values:
  assumes "unset node d t"
  shows "minWireValue node t d = Fin 0" "maxWireValue node t d = Fin 0" "wire m node t d e = Inr (Fin 0, e)"
  using assms
  by (simp_all add: unset_def minWireValue_def maxWireValue_def zero_value_def wire_def computeWireValue_def d_eq_def)

lemma fixed_wire: "fixed node d t v \<Longrightarrow> wire m node t d e = Inr (v, e)"
  by (simp add: fixed_def wire_def computeWireValue_def d_eq_def)

lemma d_add_zero: "is_double v \<Longrightarrow> d_add v (Fin 0) = (if v = NegZero then Fin 0 else v)"
  by (cases v) (auto simp: d_add_def to_double_cases is_double_def zero_d_def)

lemma fixed_values:
  assumes "fixed node d t v" "is_double v"
  shows "minWireValue node t d = v" "maxWireValue node t d = (if v = NegZero then Fin 0 else v)"
  using assms by (simp_all add: fixed_def minWireValue_def maxWireValue_def d_sub_zero d_add_zero)

lemma no_lt_zero [simp]: "\<not> d_lt (Fin 0) (Fin 0)"
  by (simp add: d_lt_def)

lemma draw_not_negative [simp]: "\<not> d_lt (Fin (rng_val s)) (Fin 0)"
  using rng_val_bounds(1)[of s] by (simp add: d_lt_def not_less)

lemma zero_percent [simp]: "d_div (Fin 0) (Fin 100) = Fin 0"
  by (simp add: d_div_def to_double_cases zero_d_def)

lemma not_100_le_0 [simp]: "\<not> d_le (Fin 100) (Fin 0)"
  by (simp add: d_le_fin)

section \<open>Dropped at once\<close>

lemma mtu_verdict:
  assumes "current_node cn = Inr node"
  shows "mtuHandler cn p =
    Inr (if d_lt (Fin 0) (minWireValue node MTU (pk_direction p))
            \<and> d_lt (minWireValue node MTU (pk_direction p)) (d_of_u64 (pk_len p)) then DROP else FORWARD)"
  using assms by (simp add: mtuHandler_def Let_def)

lemma forward_not_drop [simp]: "FORWARD \<noteq> DROP" "DROP \<noteq> FORWARD"
  by (simp_all add: FORWARD_def DROP_def)

section \<open>A packet on its own\<close>

definition sent_event :: "packet \<Rightarrow> event" where
  "sent_event p = (case pk_direction p of LEFT_TO_RIGHT \<Rightarrow> VdeSend (pk_buf p) (pk_flags p)
     | RIGHT_TO_LEFT \<Rightarrow> PipeWrite (pk_buf p))"

text \<open>A connection with nothing queued and no blink socket.\<close>

definition at_rest :: "conn \<Rightarrow> bool" where
  "at_rest cn \<longleftrightarrow> q_size (cn_queue cn) = 0 \<and> bl_socket_fd (cn_blink cn) = 0"

lemma send_at_rest:
  assumes "at_rest cn" "packet_ok p"
  shows "\<exists>e'. sendPacket cn p e = Inr (cn, e') \<and> e_trace e' = e_trace e @ [sent_event p] \<and>
    e_live e' = e_live e - 1 \<and> e_rng e' = e_rng e \<and> same_oracles e e'"
  using assms
  by (cases "pk_direction p")
    (simp_all add: sendPacket_def at_rest_def packet_ok_def syscall_def sent_event_def same_oracles_def Let_def)

lemma plain_copy:
  assumes "current_node cn = Inr node" "at_rest cn" "packet_ok p" "env_ok e"
    and "\<And>t. t \<in> {CHANBUFSIZE, SPEED, BANDWIDTH, DELAY, NOISE} \<Longrightarrow> unset node (pk_direction p) t"
  shows "\<exists>e'. handle_copy m p cn e = Inr (True, cn, e') \<and> e_trace e' = e_trace e @ [sent_event p] \<and>
    e_live e' = e_live e + 1 \<and> e_rng e' = e_rng e \<and> same_oracles e e'"
proof -
  let ?e1 = "e\<lparr>e_mallocs := e_mallocs e + 2, e_live := e_live e + 2\<rparr>"
  obtain e' where s: "sendPacket cn p ?e1 = Inr (cn, e')" "e_trace e' = e_trace ?e1 @ [sent_event p]"
    "e_live e' = e_live ?e1 - 1" "e_rng e' = e_rng ?e1" "same_oracles ?e1 e'"
    using send_at_rest[OF assms(2,3), of ?e1] by blast
  note u = unset_values[OF assms(5)]
  have "handle_copy m p cn e = Inr (True, cn, e')"
    using assms(1,2) s(1)
    by (simp add: handle_copy_def packetCopy_ok[OF assms(3,4)] bufferSizeHandler_def speedHandler_def
        bandwidthHandler_def delayHandler_def noiseHandler_def u d_eq_def at_rest_def)
  then show ?thesis using s by (simp add: same_oracles_def)
qed

lemma plain_copies:
  assumes "current_node cn = Inr node" "at_rest cn" "packet_ok p" "env_ok e"
    and "\<And>t. t \<in> {CHANBUFSIZE, SPEED, BANDWIDTH, DELAY, NOISE} \<Longrightarrow> unset node (pk_direction p) t"
  shows "\<exists>e'. handle_copies m p k cn e = Inr (cn, e') \<and>
    e_trace e' = e_trace e @ replicate k (sent_event p) \<and> e_live e' = e_live e + int k \<and> e_rng e' = e_rng e"
  using assms(4)
proof (induction k arbitrary: e)
  case (Suc k)
  obtain e1 where h: "handle_copy m p cn e = Inr (True, cn, e1)" "e_trace e1 = e_trace e @ [sent_event p]"
    "e_live e1 = e_live e + 1" "e_rng e1 = e_rng e" "same_oracles e e1"
    using plain_copy[OF assms(1-3) Suc.prems assms(5)] by blast
  have "env_ok e1" using same_oracles_ok[OF h(5)] Suc.prems by simp
  then obtain e2 where "handle_copies m p k cn e1 = Inr (cn, e2)"
    "e_trace e2 = e_trace e1 @ replicate k (sent_event p)" "e_live e2 = e_live e1 + int k" "e_rng e2 = e_rng e1"
    using Suc.IH by blast
  then show ?case using h by simp
qed simp

section \<open>Duplicates\<close>

definition draws :: "rng \<Rightarrow> nat \<Rightarrow> double" where
  "draws s k = Fin (rng_val ((rng_step ^^ Suc k) s))"

lemma count_duplicates_run:
  assumes "fixed node d DUP v" "\<forall>i < k. d_lt (draws (e_rng e) i) (d_div v (Fin 100))"
    and "\<not> d_lt (draws (e_rng e) k) (d_div v (Fin 100))" "n + int k \<le> INT_MAX"
  shows "count_duplicates m node d n e = Inr (n + int k, e\<lparr>e_rng := (rng_step ^^ Suc k) (e_rng e)\<rparr>)"
  using assms(2-4)
proof (induction k arbitrary: n e)
  case 0
  then show ?case
    by (subst count_duplicates.simps) (simp add: random_eq fixed_wire[OF assms(1)] draws_def)
next
  case (Suc k)
  let ?e1 = "e\<lparr>e_rng := rng_step (e_rng e)\<rparr>"
  have shift: "draws (e_rng ?e1) i = draws (e_rng e) (Suc i)" for i
    by (simp add: draws_def funpow_swap1)
  have "count_duplicates m node d (n + 1) ?e1 = Inr (n + 1 + int k, ?e1\<lparr>e_rng := (rng_step ^^ Suc k) (e_rng ?e1)\<rparr>)"
    using Suc.prems by (intro Suc.IH) (simp_all only: shift, auto)
  moreover have "d_lt (Fin (rng_val (rng_step (e_rng e)))) (d_div v (Fin 100))"
    using Suc.prems(1)[rule_format, of 0] by (simp add: draws_def)
  ultimately show ?case using Suc.prems(3)
    by (subst count_duplicates.simps) (simp add: random_eq fixed_wire[OF assms(1)] funpow_swap1 algebra_simps)
qed

section \<open>What the handlers leave alone\<close>

text \<open>Nothing is sent, the answers still to come are the same, and of the connection only the
  timestamps may change.\<close>

definition calm :: "env \<Rightarrow> env \<Rightarrow> bool" where
  "calm e e' \<longleftrightarrow> same_oracles e e' \<and> e_trace e' = e_trace e"

definition same_wires :: "conn \<Rightarrow> conn \<Rightarrow> bool" where
  "same_wires cn cn' \<longleftrightarrow> cn_queue cn' = cn_queue cn \<and> cn_blink cn' = cn_blink cn \<and>
     cn_markov cn' = cn_markov cn \<and> cn_management cn' = cn_management cn"

lemma calm_refl [simp]: "calm e e"
  by (simp add: calm_def)

lemma calm_trans: "calm e e' \<Longrightarrow> calm e' e'' \<Longrightarrow> calm e e''"
  using same_oracles_trans by (auto simp: calm_def)

lemma calm_rng [simp]: "calm e (e\<lparr>e_rng := s\<rparr>)"
  by (simp add: calm_def same_oracles_def)

lemma same_wires_refl [simp]: "same_wires cn cn"
  by (simp add: same_wires_def)

lemma same_wires_trans: "same_wires a b \<Longrightarrow> same_wires b c \<Longrightarrow> same_wires a c"
  by (simp add: same_wires_def)

lemma calm_wire: "wire m node t d e = Inr (x, e') \<Longrightarrow> calm e e'"
  by (auto simp: wire_def rbind_eq_Inr)

lemma calm_random: "random e = (u, e') \<Longrightarrow> calm e e'"
  by (auto simp: random_eq)

lemma calm_now: "now_ns e = Inr (t, e') \<Longrightarrow> calm e e'"
  by (auto simp: now_ns_def Let_def calm_def same_oracles_def split: if_splits)

lemma calm_copy:
  assumes "packetCopy p e = Inr (c, e')"
  shows "calm e e'" "packet_ok p \<Longrightarrow> c = None \<or> c = Some p"
  using assms
  by (auto simp: packetCopy_def alloc_def Let_def calm_def same_oracles_def packet_ok_def split: if_splits)

lemma calm_buffer: "bufferSizeHandler m cn p e = Inr (v, e') \<Longrightarrow> calm e e'"
  by (auto simp: bufferSizeHandler_def rbind_eq_Inr Let_def dest: calm_wire split: if_splits)

lemma calm_delay: "delayHandler m cn p e = Inr (v, e') \<Longrightarrow> calm e e'"
  by (auto simp: delayHandler_def rbind_eq_Inr Let_def dest: calm_wire split: if_splits)

lemma calm_speed:
  assumes h: "speedHandler m cn p e = Inr (v, cn', e')"
  shows "calm e e' \<and> same_wires cn cn'"
proof -
  obtain node where n: "current_node cn = Inr node" using h by (auto simp: speedHandler_def rbind_eq_Inr)
  show ?thesis
  proof (cases "d_lt (Fin 0) (maxWireValue node SPEED (pk_direction p))")
    case True
    then obtain x e1 where w: "wire m node SPEED (pk_direction p) e = Inr (x, e1)"
      using h n by (auto simp: speedHandler_def rbind_eq_Inr Let_def)
    show ?thesis
    proof (cases "d_le x (Fin 0)")
      case True
      then show ?thesis using h n w \<open>d_lt _ _\<close> calm_wire[OF w] by (simp add: speedHandler_def Let_def)
    next
      case False
      then obtain now e2 nx where "now_ns e1 = Inr (now, e2)" "e' = e2"
        "cn' = cn\<lparr>cn_speed_next := (cn_speed_next cn)(pk_direction p := nx)\<rparr>"
        using h n w \<open>d_lt _ _\<close> by (simp add: speedHandler_def Let_def rbind_eq_Inr split_paired_Ex) blast
      then show ?thesis using calm_trans[OF calm_wire[OF w] calm_now] by (simp add: same_wires_def)
    qed
  qed (use h n in \<open>simp add: speedHandler_def Let_def\<close>)
qed

lemma calm_bandwidth:
  assumes h: "bandwidthHandler m cn p e = Inr (v, cn', e')"
  shows "calm e e' \<and> same_wires cn cn'"
proof -
  obtain node where n: "current_node cn = Inr node" using h by (auto simp: bandwidthHandler_def rbind_eq_Inr)
  show ?thesis
  proof (cases "d_lt (Fin 0) (maxWireValue node BANDWIDTH (pk_direction p))")
    case True
    then obtain x e1 where w: "wire m node BANDWIDTH (pk_direction p) e = Inr (x, e1)"
      using h n by (auto simp: bandwidthHandler_def rbind_eq_Inr Let_def)
    show ?thesis
    proof (cases "d_le x (Fin 0)")
      case True
      then show ?thesis using h n w \<open>d_lt _ _\<close> calm_wire[OF w] by (simp add: bandwidthHandler_def Let_def)
    next
      case False
      then obtain now e2 where now: "now_ns e1 = Inr (now, e2)"
        using h n w \<open>d_lt _ _\<close> by (simp add: bandwidthHandler_def Let_def rbind_eq_Inr split_paired_Ex) blast
      then obtain nx where "e' = e2"
        "cn' = cn\<lparr>cn_bandwidth_next := (cn_bandwidth_next cn)(pk_direction p := nx)\<rparr>"
        using h n w \<open>d_lt _ _\<close> False
        by (cases "cn_bandwidth_next cn (pk_direction p) < now")
          (simp add: bandwidthHandler_def Let_def rbind_eq_Inr; blast)+
      then show ?thesis using calm_trans[OF calm_wire[OF w] calm_now[OF now]] by (simp add: same_wires_def)
    qed
  qed (use h n in \<open>simp add: bandwidthHandler_def Let_def\<close>)
qed

section \<open>Noise\<close>

text \<open>Noise changes bits only: the length and the first two bytes stay as they are.\<close>

definition same_frame :: "byte list \<Rightarrow> byte list \<Rightarrow> bool" where
  "same_frame buf buf' \<longleftrightarrow> length buf' = length buf \<and> take 2 buf' = take 2 buf"

lemma flip_bit_frame: "flip_bit buf t = Inr buf' \<Longrightarrow> 0 \<le> t \<Longrightarrow> same_frame buf buf'"
  by (auto simp: flip_bit_def rbind_eq_Inr wr_eq_Inr rd_eq_Inr same_frame_def nat_add_distrib)

lemma d_of_u64_fin: "fin (d_of_u64 w)" "val (d_of_u64 w) = rnd (of_int (uint w))" "0 \<le> val (d_of_u64 w)"
proof -
  have b: "0 \<le> uint w" "uint w \<le> 18446744073709551616" using uint_bounded[of w] by simp_all
  then have "(of_int (uint w) :: rat) \<le> of_int 18446744073709551616" by (simp only: of_int_le_iff)
  moreover have "rnd 18446744073709551616 = 18446744073709551616"
    by (rule rnd_exact[of _ 1 64]) simp_all
  ultimately have le: "rnd (of_int (uint w)) \<le> 18446744073709551616" by (intro rnd_le) simp_all
  have "(0 :: rat) \<le> of_int (uint w)" using b(1) by (simp only: of_int_0_le_iff)
  then have nn: "0 \<le> rnd (of_int (uint w))" by (rule rnd_pos)
  then have "\<bar>rnd (of_int (uint w))\<bar> < dlimit" using le by (intro small_lt_limit[of _ 64]) simp_all
  then show "fin (d_of_u64 w)" "val (d_of_u64 w) = rnd (of_int (uint w))"
    by (simp_all add: d_of_u64_def d_of_int_def fin_to_double val_to_double)
  then show "0 \<le> val (d_of_u64 w)" using nn by simp
qed

lemma fin_d_mul: "fin (d_mul x y) \<Longrightarrow> fin x \<and> fin y"
  by (cases "fin x"; cases "fin y") (auto simp: d_mul_def Let_def split: if_splits)

lemma val_d_mul_nonneg: "fin x \<Longrightarrow> fin y \<Longrightarrow> 0 \<le> val x \<Longrightarrow> 0 \<le> val y \<Longrightarrow> 0 \<le> val (d_mul x y)"
proof -
  assume "fin x" "fin y" "0 \<le> val x" "0 \<le> val y"
  then have "0 \<le> rnd (val x * val y)" by (intro rnd_pos) simp
  then show ?thesis using \<open>fin x\<close> \<open>fin y\<close> by (auto simp: d_mul_fin to_double_cases zero_d_def inf_d_def)
qed

lemma d_mul_nonneg_trunc:
  assumes "d_to_int (d_mul (d_mul (Fin (rng_val s)) (d_of_u64 len)) (Fin 8)) = Inr t"
  shows "0 \<le> t"
proof -
  let ?a = "d_mul (Fin (rng_val s)) (d_of_u64 len)"
  have f: "fin (d_mul ?a (Fin 8))" "t = trunc (val (d_mul ?a (Fin 8)))"
    using assms by (auto simp: d_to_int_def split: if_splits)
  have "0 \<le> val ?a" using d_of_u64_fin[of len] rng_val_bounds(1) by (intro val_d_mul_nonneg) simp_all
  then have "0 \<le> val (d_mul ?a (Fin 8))" using fin_d_mul[OF f(1)] by (intro val_d_mul_nonneg[of ?a "Fin 8"]) simp_all
  then show ?thesis using f(2) by (simp add: trunc_def)
qed

lemma break_bit_frame:
  assumes "break_bit len i (buf, e) = Inr (buf', e')"
  shows "same_frame buf buf'" "calm e e'"
  using assms
  by (auto simp: break_bit_def random_eq rbind_eq_Inr dest!: d_mul_nonneg_trunc dest: flip_bit_frame)

lemma break_bits_frame:
  "each (break_bit len) is (buf, e) = Inr (buf', e') \<Longrightarrow> same_frame buf buf' \<and> calm e e'"
proof (induction "is" arbitrary: buf e)
  case Nil
  then show ?case by (simp add: same_frame_def)
next
  case (Cons i "is")
  then obtain buf1 e1 where b: "break_bit len i (buf, e) = Inr (buf1, e1)"
    "each (break_bit len) is (buf1, e1) = Inr (buf', e')"
    by (auto simp: rbind_eq_Inr)
  then show ?case using Cons.IH[OF b(2)] break_bit_frame[OF b(1)] calm_trans
    by (auto simp: same_frame_def)
qed

lemma calm_count_broken: "count_broken limit n e = Inr (k, e') \<Longrightarrow> calm e e'"
proof (induction limit n e rule: count_broken.induct)
  case (1 limit n e)
  show ?case
  proof (cases "d_lt (d_mul (d_mul (fst (random e)) (Fin 8)) (d_of_int MEGA)) limit")
    case True
    have "count_broken limit n e =
        (if INT_MAX \<le> n then Inl SignedOverflow else count_broken limit (n + 1) (snd (random e)))"
      using True by (subst count_broken.simps) (simp add: split_beta)
    then have "\<not> INT_MAX \<le> n" "count_broken limit (n + 1) (snd (random e)) = Inr (k, e')"
      using "1.prems" by (auto split: if_splits)
    then have "calm (snd (random e)) e'" using "1.IH"[OF refl prod.collapse True] by simp
    then show ?thesis using calm_trans[of e "snd (random e)" e'] by (simp add: random_eq)
  next
    case False
    then have "count_broken limit n e = Inr (n, snd (random e))"
      by (subst count_broken.simps) (simp add: split_beta)
    then show ?thesis using "1.prems" by (auto simp: random_eq)
  qed
qed

lemma noise_frame:
  assumes "noiseHandler m cn p e = Inr (p', e')"
  shows "same_frame (pk_buf p) (pk_buf p') \<and> pk_len p' = pk_len p \<and> pk_flags p' = pk_flags p \<and>
    pk_direction p' = pk_direction p \<and> calm e e'"
  using assms
  by (auto simp: noiseHandler_def rbind_eq_Inr Let_def same_frame_def split: if_splits
      dest!: calm_wire calm_count_broken break_bits_frame intro: calm_trans)

section \<open>Order\<close>

lemma handle_copy_queued:
  assumes h: "handle_copy m p cn e = Inr (True, cn', e')"
    and q: "q_fifoness (cn_queue cn) = FIFO" "0 < q_size (cn_queue cn)" and p: "packet_ok p"
  shows "\<exists>p' t e1 e2. enqueue (cn_queue cn) p' t e1 = Inr (cn_queue cn', e2) \<and> calm e e1 \<and>
    setQueueTimer (cn_queue cn') e2 = Inr e' \<and> same_frame (pk_buf p) (pk_buf p') \<and>
    pk_len p' = pk_len p \<and> pk_flags p' = pk_flags p \<and> pk_direction p' = pk_direction p"
proof -
  obtain c ea where a: "packetCopy p e = Inr (c, ea)" using h by (auto simp: handle_copy_def rbind_eq_Inr)
  obtain to_send where c: "c = Some to_send" using h a by (cases c) (auto simp: handle_copy_def)
  then have ts: "to_send = p" using calm_copy(2)[OF a p] by simp
  obtain v eb where b: "bufferSizeHandler m cn p ea = Inr (v, eb)" "v \<noteq> DROP"
    using h a c ts by (auto simp: handle_copy_def rbind_eq_Inr split: if_splits)
  obtain s cn1 ec where s: "speedHandler m cn p eb = Inr (s, cn1, ec)"
    using h a c ts b by (auto simp: handle_copy_def rbind_eq_Inr)
  obtain w cn2 ed where w: "bandwidthHandler m cn1 p ec = Inr (w, cn2, ed)"
    using h a c ts b s by (auto simp: handle_copy_def rbind_eq_Inr)
  obtain d ee where d: "delayHandler m cn2 p ed = Inr (d, ee)"
    using h a c ts b s w by (auto simp: handle_copy_def rbind_eq_Inr)
  obtain p' ef where n: "noiseHandler m cn2 p ee = Inr (p', ef)"
    using h a c ts b s w d by (auto simp: handle_copy_def rbind_eq_Inr Let_def)
  have sw: "cn_queue cn2 = cn_queue cn"
    using calm_speed[OF s] calm_bandwidth[OF w] by (simp add: same_wires_def)
  have tail: "rbind (now_ns ef) (\<lambda>(now, e).
       rbind (advance now (d_add (d_add (d_add (Fin 0) s) w) d)) (\<lambda>forward_time.
       rbind (enqueue (cn_queue cn2) p' forward_time e) (\<lambda>(q, e).
       rbind (setQueueTimer q e) (\<lambda>e. Inr (True, cn2\<lparr>cn_queue := q\<rparr>, e))))) = Inr (True, cn', e')"
    using h a c ts b s w d n q sw by (simp add: handle_copy_def Let_def)
  obtain now eg where now: "now_ns ef = Inr (now, eg)" using tail by (auto simp: rbind_eq_Inr)
  obtain t where t: "advance now (d_add (d_add (d_add (Fin 0) s) w) d) = Inr t"
    using tail now by (auto simp: rbind_eq_Inr)
  obtain q' eh where enq: "enqueue (cn_queue cn2) p' t eg = Inr (q', eh)"
    using tail now t by (auto simp: rbind_eq_Inr)
  have fin: "setQueueTimer q' eh = Inr e'" "cn_queue cn' = q'"
    using tail now t enq by (auto simp: rbind_eq_Inr)
  have "calm e eg"
    using calm_copy(1)[OF a] calm_buffer[OF b(1)] calm_speed[OF s] calm_bandwidth[OF w] calm_delay[OF d]
      noise_frame[OF n] calm_now[OF now] calm_trans by meson
  then show ?thesis using enq fin sw noise_frame[OF n] by auto
qed

lemma setQueueTimer_trace:
  "setQueueTimer q e = Inr e' \<Longrightarrow> \<exists>s n. e_trace e' = e_trace e @ [SetTime (q_timerfd q) s n] \<and> same_oracles e e'"
  by (auto simp: setQueueTimer_def rbind_eq_Inr setTimer_def syscall_def Let_def now_ns_def same_oracles_def
      split: if_splits)

lemma calm_ok: "calm e e' \<Longrightarrow> env_ok e \<Longrightarrow> env_ok e'"
  using same_oracles_ok by (auto simp: calm_def)

section \<open>Times\<close>

text \<open>A constant delay of a whole number of milliseconds.\<close>

lemma MS_TO_NS_int: "0 \<le> D \<Longrightarrow> D \<le> 9000000000 \<Longrightarrow> MS_TO_NS (d_of_int D) = d_of_int (D * 1000000)"
proof -
  assume D: "0 \<le> D" "D \<le> 9000000000"
  then have b: "\<bar>D\<bar> \<le> 2 ^ 53" "\<bar>D * 1000000\<bar> \<le> 2 ^ 53" by simp_all
  have "d_mul (d_of_int D) (Fin 1000000) = to_double False (of_int D * 1000000)"
    using D by (simp add: d_mul_fin d_of_int_exact[OF b(1)])
  then show ?thesis by (simp add: MS_TO_NS_def d_of_int_def)
qed

lemma advance_near:
  assumes "0 \<le> D" "D \<le> 9000000000" "uint now < 2 ^ 63"
  shows "\<exists>t. advance now (d_of_int D) = Inr t \<and> \<bar>uint t - (uint now + D * 1000000)\<bar> \<le> 1537"
proof -
  define x y where "x = (of_int (uint now) :: rat)" and "y = (of_int (D * 1000000) :: rat)"
  have x: "0 \<le> x" "x < 9223372036854775808"
  proof -
    show "0 \<le> x" unfolding x_def by (simp only: of_int_0_le_iff uint_ge_0)
    have "x < of_int 9223372036854775808" unfolding x_def of_int_less_iff using assms(3) by simp
    then show "x < 9223372036854775808" by simp
  qed
  have y: "0 \<le> y" "y \<le> 9000000000000000"
  proof -
    show "0 \<le> y" unfolding y_def of_int_0_le_iff using assms(1) by simp
    have "y \<le> of_int 9000000000000000" unfolding y_def of_int_le_iff using assms(2) by simp
    then show "y \<le> 9000000000000000" by simp
  qed
  have ex: "\<bar>rnd x - x\<bar> \<le> 512" using rnd_error_below[of x 63] x by simp
  have nx: "0 \<le> rnd x" using x(1) by (rule rnd_pos)
  define z where "z = rnd x + y"
  have z: "0 \<le> z" "z < 18446744073709551616" using ex x y nx unfolding z_def by linarith+
  have ez: "\<bar>rnd z - z\<bar> \<le> 1024" using rnd_error_below[of z 64] z by simp
  have nz: "0 \<le> rnd z" using z(1) by (rule rnd_pos)
  have near: "\<bar>rnd z - (x + y)\<bar> \<le> 1536" using ex ez unfolding z_def by linarith
  have big: "rnd z < 18446744073709551615" using near x y by linarith
  have dl: "\<bar>rnd z\<bar> < dlimit" using nz big by (intro small_lt_limit[of _ 64]) simp_all
  have "\<bar>D * 1000000\<bar> \<le> 2 ^ 53" using assms(1,2) by simp
  then have dd: "d_of_int (D * 1000000) = Fin y" by (simp only: d_of_int_exact y_def)
  have sum: "fin (d_add (d_of_u64 now) (Fin y))" "val (d_add (d_of_u64 now) (Fin y)) = rnd z"
    using d_of_u64_fin[of now] dl by (simp_all add: d_add_fin fin_to_double val_to_double x_def z_def)
  let ?n = "\<lfloor>rnd z\<rfloor>"
  have n: "0 \<le> ?n" "?n \<le> 18446744073709551615" using nz big by (simp_all add: floor_le_iff)
  have "advance now (d_of_int D) = Inr (word_of_int ?n)"
    using n nz unfolding advance_def MS_TO_NS_int[OF assms(1,2)] dd d_to_u64_def sum(2)
    by (simp add: sum(1) trunc_def)
  moreover have "uint (word_of_int ?n :: u64) = ?n" using n by (intro uint_word_of_int_u64) simp_all
  moreover have "\<bar>?n - (uint now + D * 1000000)\<bar> \<le> 1537"
  proof -
    have "of_int ?n \<le> rnd z" "rnd z < of_int ?n + 1" by (rule of_int_floor_le, rule floor_correct[THEN conjunct2, simplified of_int_add of_int_1])
    then have "\<bar>of_int ?n - (x + y)\<bar> \<le> (1537 :: rat)" using near by linarith
    moreover have "of_int ?n - (x + y) = (of_int (?n - (uint now + D * 1000000)) :: rat)"
      by (simp add: x_def y_def)
    ultimately have "\<bar>of_int (?n - (uint now + D * 1000000)) :: rat\<bar> \<le> of_int 1537" by simp
    then show ?thesis by (simp only: of_int_abs[symmetric] of_int_le_iff)
  qed
  ultimately show ?thesis by auto
qed

lemma setQueueTimer_returns:
  assumes "queue_inv q" "queue_nodes q \<noteq> {#}" "env_ok e"
  shows "\<exists>e'. setQueueTimer q e = Inr e'"
proof -
  obtain t where t: "nextQueueTime q = Inr t" using dequeue_correct[OF assms(1,2)] by blast
  obtain now where now: "now_ns e = Inr (now, e\<lparr>e_reads := Suc (e_reads e)\<rparr>)" using now_ns_ok[OF assms(3)] by blast
  have "env_ok (e\<lparr>e_reads := Suc (e_reads e)\<rparr>)" using assms(3) env_ok_cong[of "e\<lparr>e_reads := Suc (e_reads e)\<rparr>" e] by simp
  then show ?thesis using setTimer_ok by (simp add: setQueueTimer_def t now Let_def)
qed

lemma delayed_copy:
  assumes cn: "current_node cn = Inr node" "queue_inv (cn_queue cn)" "unat (q_size (cn_queue cn)) < 99"
    and p: "packet_ok p" and e: "env_ok e"
    and u: "\<And>t. t \<in> {CHANBUFSIZE, SPEED, BANDWIDTH, NOISE} \<Longrightarrow> unset node (pk_direction p) t"
    and f: "fixed node (pk_direction p) DELAY (d_of_int D)" and D: "0 < D" "D \<le> 9000000000"
  shows "\<exists>e0 now e1 t q' e'. quiet e e0 \<and> now_ns e0 = Inr (now, e1) \<and>
    handle_copy m p cn e = Inr (True, cn\<lparr>cn_queue := q'\<rparr>, e') \<and> queue_inv q' \<and>
    queue_nodes q' = add_mset (new_node (cn_queue cn) p t) (queue_nodes (cn_queue cn)) \<and>
    \<bar>uint t - (uint now + D * 1000000)\<bar> \<le> 1537"
proof -
  let ?e0 = "e\<lparr>e_mallocs := e_mallocs e + 2, e_live := e_live e + 2\<rparr>"
  have q0: "quiet e ?e0" by (simp add: quiet_def)
  have ok0: "env_ok ?e0" using quiet_ok[OF q0] e by simp
  obtain now where now: "now_ns ?e0 = Inr (now, ?e0\<lparr>e_reads := Suc (e_reads ?e0)\<rparr>)" "uint now < 2 ^ 63"
    using now_ns_ok[OF ok0] by blast
  define e1 where "e1 = ?e0\<lparr>e_reads := Suc (e_reads ?e0)\<rparr>"
  have ok1: "env_ok e1" using ok0 env_ok_cong[of e1 ?e0] by (simp add: e1_def)
  obtain t where t: "advance now (d_of_int D) = Inr t" "\<bar>uint t - (uint now + D * 1000000)\<bar> \<le> 1537"
    using advance_near[of D now] D now(2) by auto
  obtain q' e2 where enq: "enqueue (cn_queue cn) p t e1 = Inr (q', e2)" "queue_inv q'" "quiet e1 e2"
    "queue_nodes q' = add_mset (new_node (cn_queue cn) p t) (queue_nodes (cn_queue cn))"
    using enqueue_correct[OF cn(2) ok1 cn(3), of p t] by blast
  have ok2: "env_ok e2" using quiet_ok[OF enq(3)] ok1 by simp
  have "queue_nodes q' \<noteq> {#}" using enq(4) by simp
  then obtain e' where tm: "setQueueTimer q' e2 = Inr e'" using setQueueTimer_returns[OF enq(2) _ ok2] by blast
  have Db: "\<bar>D\<bar> \<le> 2 ^ 53" using D by simp
  have dD: "d_of_int D = Fin (of_int D)" "0 < (of_int D :: rat)"
    using d_of_int_exact[OF Db] D by simp_all
  have sum: "d_add (Fin 0) (d_of_int D) = d_of_int D"
    using dD by (simp add: d_add_fin d_of_int_def)
  have dbl: "is_double (d_of_int D)" unfolding d_of_int_def by (rule is_double_to_double)
  have pos: "d_lt (Fin 0) (d_of_int D)" using dD by (simp add: d_lt_fin)
  have mx: "maxWireValue node DELAY (pk_direction p) = d_of_int D"
    using fixed_values(2)[OF f dbl] dD(1) by simp
  note uv = unset_values[OF u]
  have "handle_copy m p cn e = Inr (True, cn\<lparr>cn_queue := q'\<rparr>, e')"
    using cn(1) t(1) enq(1) tm now(1)
    by (simp add: handle_copy_def packetCopy_ok[OF p e] bufferSizeHandler_def speedHandler_def
        bandwidthHandler_def delayHandler_def noiseHandler_def uv d_eq_def mx pos fixed_wire[OF f] sum e1_def)
  then show ?thesis using q0 now(1) enq t(2) by blast
qed

end
