(* ===== verification/Handlers_Spec.thy ===== *)
theory Handlers_Spec
  imports Handlers_Props
begin

text \<open>
  The contract of the packet handlers: what is sent, what is dropped, what is delayed and until
  when, and what noise may touch; each property with a run on a concrete connection.
\<close>

section \<open>A concrete connection\<close>

definition open_conn :: conn where
  "open_conn = zero_conn\<lparr>cn_markov := two_nodes, cn_queue := empty_queue\<rparr>"

definition with_value :: "tag \<Rightarrow> double \<Rightarrow> markov_node" where
  "with_value t v = zero_node\<lparr>mn_value := (\<lambda>t' _. if t' = t
     then \<lparr>wv_value = v, wv_plus = Fin 0, wv_algorithm = 0\<rparr> else zero_value)\<rparr>"

definition conn_with :: "tag \<Rightarrow> double \<Rightarrow> conn" where
  "conn_with t v = open_conn\<lparr>cn_markov := two_nodes\<lparr>mk_nodes := Some [Some (with_value t v), Some zero_node]\<rparr>\<rparr>"

lemma conn_with_node:
  "current_node (conn_with t v) = Inr (with_value t v)" "at_rest (conn_with t v)"
  "cn_queue (conn_with t v) = empty_queue" "fixed (with_value t v) d t v"
  "t' \<noteq> t \<Longrightarrow> unset (with_value t v) d t'"
  by (simp_all add: current_node_def markov_current_def get_node_def conn_with_def two_nodes_def
      open_conn_def rd_def at_rest_def empty_queue_def zero_conn_def fixed_def with_value_def unset_def
      zero_value_def zero_node_def)

lemma ping_ok: "packet_ok ping"
  by (simp add: packet_ok_def ping_def)

section \<open>Properties\<close>

text \<open>C18: on a wire whose only parameter is a constant duplication percentage (0 for none), with
  nothing queued, a packet is sent at once and unchanged, once more for every draw below the
  percentage before the first that is not; nothing is queued and no timer is armed. Every copy
  sent leaves one block, its payload, allocated.\<close>

theorem packet_forwarded:
  assumes "current_node cn = Inr node" "at_rest cn" "packet_ok p" "env_ok e"
    and "\<And>t. t \<noteq> DUP \<Longrightarrow> unset node (pk_direction p) t"
    and "fixed node (pk_direction p) DUP v" "is_double v"
    and "if d_lt (Fin 0) v
         then (\<forall>i < k. d_lt (draws (rng_step (e_rng e)) i) (d_div v (Fin 100))) \<and>
              \<not> d_lt (draws (rng_step (e_rng e)) k) (d_div v (Fin 100))
         else k = 0"
    and "int k < INT_MAX"
  shows "\<exists>e'. handlePacket m cn p e = Inr (set_bursty cn (pk_direction p) OK_BURST, e') \<and>
    e_trace e' = e_trace e @ replicate (Suc k) (sent_event p) \<and> e_live e' = e_live e + int (Suc k)"
proof -
  let ?cn = "set_bursty cn (pk_direction p) OK_BURST"
  let ?e1 = "e\<lparr>e_rng := rng_step (e_rng e)\<rparr>"
  note u = unset_values[OF assms(5)]
  have mtu: "mtuHandler cn p = Inr FORWARD" using assms(1) u by (simp add: mtu_verdict)
  have loss: "lossHandler m cn p e = Inr (FORWARD, ?cn, ?e1)"
    using assms(1) u by (simp add: lossHandler_def random_eq Let_def)
  have cn: "current_node ?cn = Inr node" "at_rest ?cn"
    using assms(1,2) by (simp_all add: set_bursty_def current_node_def at_rest_def)
  have mx: "d_lt (Fin 0) (maxWireValue node DUP (pk_direction p)) \<longleftrightarrow> d_lt (Fin 0) v"
    using fixed_values(2)[OF assms(6,7)] by (auto simp: d_lt_def)
  obtain s where dup: "duplicatesHandler m ?cn p ?e1 = Inr (int k, ?e1\<lparr>e_rng := s\<rparr>)"
  proof (cases "d_lt (Fin 0) v")
    case True
    then show ?thesis
      using that count_duplicates_run[OF assms(6), of k ?e1 0 m] assms(8,9) cn mx
      by (simp add: duplicatesHandler_def)
  next
    case False
    then show ?thesis using that[of "e_rng ?e1"] assms(8) cn mx by (simp add: duplicatesHandler_def)
  qed
  let ?e2 = "?e1\<lparr>e_rng := s\<rparr>"
  have "env_ok ?e2" using assms(4) env_ok_cong[of ?e2 e] by simp
  then obtain e' where "handle_copies m p (Suc k) ?cn ?e2 = Inr (?cn, e')"
    "e_trace e' = e_trace ?e2 @ replicate (Suc k) (sent_event p)" "e_live e' = e_live ?e2 + int (Suc k)"
    using plain_copies[OF cn assms(3), of ?e2] assms(5) by blast
  moreover have "nat (1 + int k) = Suc k" by simp
  ultimately show ?thesis
    using mtu loss dup assms(9) by (simp add: handlePacket_def)
qed

theorem packet_forwarded_witness:
  "\<exists>e'. handlePacket idle_libm (conn_with DUP (Fin 0)) ping idle_env =
      Inr (set_bursty (conn_with DUP (Fin 0)) LEFT_TO_RIGHT OK_BURST, e') \<and>
    e_trace e' = [VdeSend [8, 0, 247, 255] 0] \<and> e_live e' = 1"
proof -
  have "is_double (Fin 0)" by (simp add: is_double_def)
  from packet_forwarded[OF conn_with_node(1,2) ping_ok idle_env_ok conn_with_node(5) conn_with_node(4) this, of 0 idle_libm]
  show ?thesis by (simp add: ping_def sent_event_def idle_env_def)
qed

text \<open>A packet longer than the smallest MTU the node can give is dropped without any effect,
  and so is every packet when the smallest loss is 100 percent.\<close>

lemma dropped_at_once:
  assumes "current_node cn = Inr node"
    and "d_lt (Fin 0) (minWireValue node MTU (pk_direction p)) \<and>
           d_lt (minWireValue node MTU (pk_direction p)) (d_of_u64 (pk_len p)) \<or>
         d_le (Fin 100) (minWireValue node LOSS (pk_direction p))"
  shows "handlePacket m cn p e = Inr (cn, e)"
  using assms by (auto simp: handlePacket_def mtu_verdict lossHandler_def Let_def)

lemma dropped_example:
  "handlePacket idle_libm (conn_with LOSS (Fin 100)) ping idle_env = Inr (conn_with LOSS (Fin 100), idle_env)"
  using dropped_at_once[OF conn_with_node(1)[of LOSS "Fin 100"], of ping idle_libm idle_env]
    fixed_values(1)[OF conn_with_node(4) is_double_100, of LOSS "pk_direction ping"]
  by simp

text \<open>C14: with constant loss \<open>p\<close> and mean burst length \<open>b\<close> every packet of a direction makes one step
  of the two-state Gilbert chain of that direction, with the probabilities \<open>p / (b (1 - p))\<close> and
  \<open>1 / b\<close>, and is dropped exactly when the chain is then in the faulty state.\<close>

theorem gilbert_step:
  assumes "current_node cn = Inr node" "is_double p" "is_double b" "\<not> d_le (Fin 100) p" "d_lt (Fin 0) b"
    and "fixed node (pk_direction pk) LOSS p" "fixed node (pk_direction pk) BURSTYLOSS b"
    and "cn_bursty_loss_status cn (pk_direction pk) = (if faulty then FAULTY_BURST else OK_BURST)"
  shows "lossHandler m cn pk e =
    (let faulty' = (if faulty then \<not> d_lt (fst (random e)) (d_div (Fin 1) b)
        else d_lt (fst (random e)) (d_div (d_div p (Fin 100)) (d_mul b (d_sub (Fin 1) (d_div p (Fin 100))))))
     in Inr (if faulty' then DROP else FORWARD,
             set_bursty cn (pk_direction pk) (if faulty' then FAULTY_BURST else OK_BURST), snd (random e)))"
proof -
  have mn: "minWireValue node LOSS (pk_direction pk) = p" using fixed_values(1)[OF assms(6,2)] .
  have mx: "d_lt (Fin 0) (maxWireValue node BURSTYLOSS (pk_direction pk))"
    using fixed_values(2)[OF assms(7,3)] assms(5) by (auto simp: d_lt_def)
  have st: "OK_BURST \<noteq> FAULTY_BURST" by (simp add: OK_BURST_def FAULTY_BURST_def)
  have same: "set_bursty cn (pk_direction pk) (cn_bursty_loss_status cn (pk_direction pk)) = cn"
    by (simp add: set_bursty_def)
  have sel: "cn_bursty_loss_status (set_bursty cn d v) d = v" for d v by (simp add: set_bursty_def)
  show ?thesis
    using same assms(8) st
    by (cases faulty)
      (simp_all add: lossHandler_def gilbert_def assms(1,4) mn mx fixed_wire[OF assms(6)] fixed_wire[OF assms(7)]
        random_eq sel Let_def)
qed

definition bursty_conn :: conn where
  "bursty_conn = open_conn\<lparr>cn_markov := two_nodes\<lparr>mk_nodes := Some [Some (zero_node\<lparr>mn_value := (\<lambda>t _.
     if t = LOSS then \<lparr>wv_value = Fin 50, wv_plus = Fin 0, wv_algorithm = 0\<rparr>
     else if t = BURSTYLOSS then \<lparr>wv_value = Fin 4, wv_plus = Fin 0, wv_algorithm = 0\<rparr>
     else zero_value)\<rparr>), Some zero_node]\<rparr>\<rparr>"

theorem gilbert_step_witness:
  "lossHandler idle_libm bursty_conn ping idle_env =
     Inr (DROP, set_bursty bursty_conn LEFT_TO_RIGHT FAULTY_BURST, snd (random idle_env))"
proof -
  obtain node where n: "current_node bursty_conn = Inr node" "fixed node LEFT_TO_RIGHT LOSS (Fin 50)"
    "fixed node LEFT_TO_RIGHT BURSTYLOSS (Fin 4)"
    by (simp add: current_node_def markov_current_def get_node_def bursty_conn_def two_nodes_def rd_def fixed_def)
  have "is_double (Fin 50)" "is_double (Fin 4)"
    using small_lt_limit[of 50 6] small_lt_limit[of 4 2] rnd_of_int[of 50] rnd_of_int[of 4]
    by (simp_all add: is_double_def)
  moreover have "\<not> d_le (Fin 100) (Fin 50)" "d_lt (Fin 0) (Fin 4)" by (simp_all add: d_le_fin d_lt_fin)
  moreover have "d_lt (fst (random idle_env))
      (d_div (d_div (Fin 50) (Fin 100)) (d_mul (Fin 4) (d_sub (Fin 1) (d_div (Fin 50) (Fin 100)))))"
    by code_simp
  moreover have "cn_bursty_loss_status bursty_conn (pk_direction ping) = (if False then FAULTY_BURST else OK_BURST)"
    by (simp add: bursty_conn_def open_conn_def zero_conn_def OK_BURST_def)
  moreover have "pk_direction ping = LEFT_TO_RIGHT" by (simp add: ping_def)
  ultimately show ?thesis
    using gilbert_step[OF n(1), of "Fin 50" "Fin 4" ping False idle_libm idle_env] n(2,3) by simp
qed

text \<open>C19: a constant delay of \<open>D\<close> milliseconds, with no other parameter, puts the packet into the
  queue with a forward time within 1537 nanoseconds of \<open>D\<close> milliseconds after the time read; the
  error comes from adding the times as floating-point numbers. In FIFO mode the packet waits at
  least as long as the latest packet before it: its forward time is then the larger of the two.\<close>

theorem packet_delayed:
  assumes "current_node cn = Inr node" "queue_inv (cn_queue cn)" "unat (q_size (cn_queue cn)) < 99"
    and "packet_ok p" "env_ok e"
    and "\<And>t. t \<in> {CHANBUFSIZE, SPEED, BANDWIDTH, NOISE} \<Longrightarrow> unset node (pk_direction p) t"
    and "fixed node (pk_direction p) DELAY (d_of_int D)" "0 < D" "D \<le> 9000000000"
  shows "\<exists>e0 now e1 t n q' e'. quiet e e0 \<and> now_ns e0 = Inr (now, e1) \<and>
    \<bar>uint t - (uint now + D * 1000000)\<bar> \<le> 1537 \<and>
    handle_copy m p cn e = Inr (True, cn\<lparr>cn_queue := q'\<rparr>, e') \<and> queue_inv q' \<and>
    queue_nodes q' = add_mset n (queue_nodes (cn_queue cn)) \<and> qn_packet n = Some p \<and>
    qn_time n = (if q_fifoness (cn_queue cn) = FIFO then max t (q_max_forward_time (cn_queue cn)) else t)"
proof -
  obtain e0 now e1 t q' e' where r: "quiet e e0" "now_ns e0 = Inr (now, e1)"
    "handle_copy m p cn e = Inr (True, cn\<lparr>cn_queue := q'\<rparr>, e')" "queue_inv q'"
    "queue_nodes q' = add_mset (new_node (cn_queue cn) p t) (queue_nodes (cn_queue cn))"
    "\<bar>uint t - (uint now + D * 1000000)\<bar> \<le> 1537"
    using delayed_copy[OF assms] by blast
  have "qn_packet (new_node (cn_queue cn) p t) = Some p"
    "qn_time (new_node (cn_queue cn) p t) =
      (if q_fifoness (cn_queue cn) = FIFO then max t (q_max_forward_time (cn_queue cn)) else t)"
    by (auto simp: new_node_def fifo_stamp_def max_def)
  then show ?thesis using r by blast
qed

theorem packet_delayed_witness:
  "\<exists>n q' e'. handle_copy idle_libm ping (conn_with DELAY (d_of_int 20)) idle_env =
      Inr (True, (conn_with DELAY (d_of_int 20))\<lparr>cn_queue := q'\<rparr>, e') \<and> queue_nodes q' = {#n#} \<and>
    qn_packet n = Some ping \<and> \<bar>uint (qn_time n) - 1700000000020000000\<bar> \<le> 1537"
proof -
  have u: "unset (with_value DELAY (d_of_int 20)) (pk_direction ping) t"
    if "t \<in> {CHANBUFSIZE, SPEED, BANDWIDTH, NOISE}" for t
    using that by (intro conn_with_node(5)) auto
  have q: "queue_inv (cn_queue (conn_with DELAY (d_of_int 20)))" "unat (q_size (cn_queue (conn_with DELAY (d_of_int 20)))) < 99"
    by (simp_all add: conn_with_node(3) empty_queue_inv)
  have D: "(0 :: int) < 20" "(20 :: int) \<le> 9000000000" by simp_all
  obtain e0 now e1 t n q' e' where r: "quiet idle_env e0" "now_ns e0 = Inr (now, e1)"
    "\<bar>uint t - (uint now + 20 * 1000000)\<bar> \<le> 1537"
    "handle_copy idle_libm ping (conn_with DELAY (d_of_int 20)) idle_env =
      Inr (True, (conn_with DELAY (d_of_int 20))\<lparr>cn_queue := q'\<rparr>, e')"
    "queue_nodes q' = add_mset n {#}" "qn_packet n = Some ping" "qn_time n = max t 0"
  proof -
    have q0: "queue_nodes (cn_queue (conn_with DELAY (d_of_int 20))) = {#}"
      "q_max_forward_time (cn_queue (conn_with DELAY (d_of_int 20))) = 0"
      "q_fifoness (cn_queue (conn_with DELAY (d_of_int 20))) = FIFO"
      by (simp_all add: conn_with_node(3) empty_queue_inv(2)) (simp_all add: empty_queue_def)
    show thesis
      using packet_delayed[OF conn_with_node(1) q ping_ok idle_env_ok u conn_with_node(4) D, of idle_libm, unfolded q0] that
      by (simp only: simp_thms if_True) blast
  qed
  have "now = 1700000000000000000" using r(1,2) by (auto simp: now_ns_def idle_env_def quiet_def Let_def)
  moreover have "qn_time n = t" using r(7) by (simp add: max_def)
  ultimately show ?thesis using r(3-6) by (intro exI[of _ n] exI[of _ q'] exI[of _ e']) simp
qed

text \<open>C20: in FIFO mode a packet never overtakes a queued one: while packets wait, a new packet (with
  its noise) is appended to the queue, whatever its delay, and nothing is sent.\<close>

theorem no_overtaking:
  assumes "handle_copy m p cn e = Inr (True, cn', e')"
    and "fifo_inv (cn_queue cn)" "0 < q_size (cn_queue cn)" "q_counter (cn_queue cn) \<noteq> - 1"
    and "packet_ok p" "env_ok e"
  shows "\<exists>p' s n. fifo_inv (cn_queue cn') \<and>
    queue_contents (cn_queue cn') = queue_contents (cn_queue cn) @ [p'] \<and>
    same_frame (pk_buf p) (pk_buf p') \<and> pk_len p' = pk_len p \<and> pk_direction p' = pk_direction p \<and>
    e_trace e' = e_trace e @ [SetTime (q_timerfd (cn_queue cn')) s n]"
proof -
  have fifo: "q_fifoness (cn_queue cn) = FIFO" and inv: "queue_inv (cn_queue cn)"
    using assms(2) by (simp_all add: fifo_inv_def)
  obtain p' t e1 e2 where r: "enqueue (cn_queue cn) p' t e1 = Inr (cn_queue cn', e2)" "calm e e1"
    "setQueueTimer (cn_queue cn') e2 = Inr e'" "same_frame (pk_buf p) (pk_buf p')"
    "pk_len p' = pk_len p" "pk_direction p' = pk_direction p"
    using handle_copy_queued[OF assms(1) fifo assms(3,5)] by blast
  have ok1: "env_ok e1" using calm_ok[OF r(2) assms(6)] .
  have room: "unat (q_size (cn_queue cn)) < 99" using enqueue_returns_size[OF inv ok1 r(1)] .
  have "stamp_free (cn_queue cn) t" using assms(4) by (simp add: stamp_free_def)
  then have "fifo_inv (cn_queue cn')" "queue_contents (cn_queue cn') = queue_contents (cn_queue cn) @ [p']"
    using enqueue_appends[OF assms(2) ok1 room, of t p'] r(1) by auto
  moreover have "quiet e1 e2" using enqueue_correct[OF inv ok1 room, of p' t] r(1) by auto
  then have "e_trace e2 = e_trace e" using r(2) by (simp add: quiet_def calm_def)
  moreover obtain s n where "e_trace e' = e_trace e2 @ [SetTime (q_timerfd (cn_queue cn')) s n]"
    using setQueueTimer_trace[OF r(3)] by blast
  ultimately show ?thesis using r(4-6) by (intro exI[of _ p'] exI[of _ s] exI[of _ n]) simp
qed

theorem no_overtaking_witness:
  "\<exists>q cn' e' p'. queue_contents q = [ping] \<and>
     handle_copy idle_libm ping (open_conn\<lparr>cn_queue := q\<rparr>) idle_env = Inr (True, cn', e') \<and>
     queue_contents (cn_queue cn') = [ping, p']"
proof -
  obtain q e where q: "enqueue_all empty_queue (replicate 1 (ping, 7)) idle_env = Inr (q, e)"
    "fifo_inv q" "queue_inv q" "queue_contents q = replicate 1 ping" "unat (q_size q) = 1"
    using pings_queue[of 1] by auto
  let ?cn = "open_conn\<lparr>cn_queue := q\<rparr>"
  let ?e1 = "idle_env\<lparr>e_mallocs := e_mallocs idle_env + 2, e_live := e_live idle_env + 2, e_reads := 1\<rparr>"
  have c: "enqueue empty_queue ping 7 idle_env = Inr (q, e)" using q(1) by (auto simp: rbind_eq_Inr)
  have "q_counter q = q_counter (fst (fifo_stamp empty_queue 7))"
    using enqueue_correct[OF empty_queue_inv(1) idle_env_ok, of ping 7] c by (auto simp: empty_queue_inv)
  then have cnt: "q_counter q \<noteq> - 1" by (simp add: fifo_stamp_def empty_queue_def FIFO_def)
  have fifo: "q_fifoness q = FIFO" "0 < q_size q"
    using q(2,5) by (auto simp: fifo_inv_def word_gt_0)
  have node: "current_node ?cn = Inr zero_node" "\<And>d t. unset zero_node d t"
    by (simp_all add: current_node_def markov_current_def get_node_def open_conn_def two_nodes_def rd_def
        unset_def zero_node_def)
  have adv: "advance 1700000000000000000 (Fin 0) = Inr 1700000000000000000" by code_simp
  have now: "now_ns (idle_env\<lparr>e_mallocs := e_mallocs idle_env + 2, e_live := e_live idle_env + 2\<rparr>) =
      Inr (1700000000000000000, ?e1)"
    by (simp add: now_ns_def idle_env_def)
  have ok: "env_ok ?e1" using idle_env_ok env_ok_cong[of ?e1 idle_env] by simp
  obtain q' e2 where enq: "enqueue q ping 1700000000000000000 ?e1 = Inr (q', e2)" "queue_inv q'" "quiet ?e1 e2"
    "queue_nodes q' = add_mset (new_node q ping 1700000000000000000) (queue_nodes q)"
    using enqueue_correct[OF q(3) ok, of ping 1700000000000000000] q(5) by auto
  have "queue_nodes q' \<noteq> {#}" "env_ok e2" using enq(4) quiet_ok[OF enq(3)] ok by simp_all
  then obtain e3 where tm: "setQueueTimer q' e2 = Inr e3" using setQueueTimer_returns[OF enq(2)] by blast
  note u = unset_values[OF node(2)]
  have run: "handle_copy idle_libm ping ?cn idle_env = Inr (True, ?cn\<lparr>cn_queue := q'\<rparr>, e3)"
    using node(1) fifo now adv enq(1) tm
    by (simp add: handle_copy_def packetCopy_ok[OF ping_ok idle_env_ok] bufferSizeHandler_def
        speedHandler_def bandwidthHandler_def delayHandler_def noiseHandler_def u d_eq_def)
  have "\<exists>p'. queue_contents q' = [ping, p']"
    using no_overtaking[OF run _ _ _ ping_ok idle_env_ok] q(2,4) fifo(2) cnt by auto
  then show ?thesis using run q(4) by fastforce
qed

definition zeros :: packet where
  "zeros = \<lparr>pk_buf = replicate 60 0, pk_len = 60, pk_flags = 0, pk_direction = LEFT_TO_RIGHT\<rparr>"

text \<open>With this random state the handler breaks one bit, bit 2 of byte 54.\<close>

lemma one_bit_broken:
  "noiseHandler idle_libm (conn_with NOISE (Fin 10000)) zeros (idle_env\<lparr>e_rng := 1\<rparr>) =
     Inr (zeros\<lparr>pk_buf := (replicate 60 0)[54 := 4]\<rparr>, idle_env\<lparr>e_rng := 245470556921330\<rparr>)"
proof -
  have st: "rng_step 1 = 25214903928" "rng_step 25214903928 = 206026503483683" "rng_step 206026503483683 = 245470556921330"
    by (simp_all add: rng_step_def)
  let ?limit = "d_mul (d_of_u64 ((60 - 2) * 8)) (Fin 10000)"
  have c1: "d_lt (d_mul (d_mul (Fin (rng_val 25214903928)) (Fin 8)) (d_of_int MEGA)) ?limit"
    and c2: "\<not> d_lt (d_mul (d_mul (Fin (rng_val 206026503483683)) (Fin 8)) (d_of_int MEGA)) ?limit"
    and c3: "d_to_int (d_mul (d_mul (Fin (rng_val 245470556921330)) (d_of_u64 60)) (Fin 8)) = Inr 418"
    and dbl: "is_double (Fin 10000)" by code_simp+
  have cb: "count_broken ?limit 0 (idle_env\<lparr>e_rng := 1\<rparr>) = Inr (1, idle_env\<lparr>e_rng := 206026503483683\<rparr>)"
    using c1 c2 by (subst count_broken.simps, simp add: random_eq st, subst count_broken.simps, simp add: random_eq st)
  have fl: "flip_bit (replicate 60 0) 418 = Inr ((replicate 60 0)[54 := 4])" by code_simp
  have mx: "d_lt (Fin 0) (maxWireValue (with_value NOISE (Fin 10000)) NOISE LEFT_TO_RIGHT)"
    using fixed_values(2)[OF conn_with_node(4) dbl, of NOISE LEFT_TO_RIGHT] by (simp add: d_lt_fin)
  show ?thesis
    using cb mx fl c3
    by (simp add: noiseHandler_def conn_with_node(1) zeros_def fixed_wire[OF conn_with_node(4)] break_bit_def random_eq st)
qed

text \<open>C36: noise changes bits only: whenever it returns, the packet has the same length, flags,
  direction and first two bytes, and nothing is sent.\<close>

theorem noise_keeps_frame:
  assumes "noiseHandler m cn p e = Inr (p', e')"
  shows "length (pk_buf p') = length (pk_buf p) \<and> take 2 (pk_buf p') = take 2 (pk_buf p) \<and>
    pk_len p' = pk_len p \<and> pk_flags p' = pk_flags p \<and> pk_direction p' = pk_direction p \<and>
    e_trace e' = e_trace e"
  using noise_frame[OF assms] by (simp add: same_frame_def calm_def)

theorem noise_keeps_frame_witness:
  "\<exists>p' e'. noiseHandler idle_libm (conn_with NOISE (Fin 10000)) zeros (idle_env\<lparr>e_rng := 1\<rparr>) = Inr (p', e') \<and>
     pk_buf p' \<noteq> pk_buf zeros \<and> length (pk_buf p') = 60 \<and> take 2 (pk_buf p') = [0, 0]"
proof -
  have "(replicate 60 0)[54 := 4] ! 54 \<noteq> (replicate 60 0 :: byte list) ! 54" by simp
  then have "(replicate 60 0)[54 := 4] \<noteq> (replicate 60 0 :: byte list)" by metis
  then show ?thesis
    using noise_keeps_frame[OF one_bit_broken] one_bit_broken by (simp add: zeros_def take_replicate eval_nat_numeral)
qed

text \<open>C35: the bit to invert is drawn from all bits of the packet but counted from the third byte on,
  so a draw in the last two bytes' worth of the range writes past the end of the payload.\<close>

theorem noise_past_end:
  assumes "int (length buf) = uint len" "0 < uint len" "uint len \<le> 134217728"
    and "of_int (uint len - 2) \<le> rng_val (rng_step (e_rng e)) * of_int (uint len)"
  shows "break_bit len i (buf, e) = Inl OutOfBounds"
proof -
  let ?L = "uint len" and ?u = "rng_val (rng_step (e_rng e))"
  have ex: "\<bar>?L\<bar> \<le> 2 ^ 53" using assms(2,3) by simp
  have l: "d_of_u64 len = Fin (of_int ?L)" "0 < (of_int ?L :: rat)" "(of_int ?L :: rat) \<le> 134217728"
  proof -
    show "d_of_u64 len = Fin (of_int ?L)" using d_of_int_exact[OF ex] by (simp only: d_of_u64_def)
    show "0 < (of_int ?L :: rat)" using assms(2) by (simp only: of_int_0_less_iff)
    have "(of_int ?L :: rat) \<le> of_int 134217728" using assms(3) by (simp only: of_int_le_iff)
    then show "(of_int ?L :: rat) \<le> 134217728" by simp
  qed
  define x where "x = ?u * of_int ?L"
  have x: "0 \<le> x" "x \<le> of_int ?L" "of_int (?L - 2) \<le> x"
    using rng_val_bounds[of "rng_step (e_rng e)"] rng_val_less_1[of "rng_step (e_rng e)"] l(2) assms(4)
      mult_right_mono[of ?u 1 "of_int ?L"] by (simp_all add: x_def)
  have rL: "rnd (of_int ?L) = of_int ?L" using ex by (rule rnd_of_int)
  have "\<bar>?L - 2\<bar> \<le> 2 ^ 53" using assms(2,3) by simp
  then have rL2: "rnd (of_int (?L - 2)) = of_int (?L - 2)" by (rule rnd_of_int)
  have y: "0 \<le> rnd x" "rnd x \<le> of_int ?L" "of_int (?L - 2) \<le> rnd x"
    using rnd_pos[OF x(1)] rnd_le[OF rL x(2)] rnd_ge[OF rL2 x(3)] by simp_all
  have fy: "fin (d_mul (Fin ?u) (d_of_u64 len))" "val (d_mul (Fin ?u) (d_of_u64 len)) = rnd x"
    using y l small_lt_limit[of "rnd x" 27] by (simp_all add: d_mul_fin fin_to_double val_to_double x_def)
  have "\<bar>8 * ?L\<bar> \<le> 2 ^ 53" "\<bar>8 * (?L - 2)\<bar> \<le> 2 ^ 53" using assms(2,3) by simp_all
  then have r8: "rnd (of_int (8 * ?L)) = of_int (8 * ?L)" "rnd (of_int (8 * (?L - 2))) = of_int (8 * (?L - 2))"
    by (simp_all only: rnd_of_int)
  define z where "z = rnd (rnd x * 8)"
  have "0 \<le> rnd x * 8" "rnd x * 8 \<le> of_int (8 * ?L)" "of_int (8 * (?L - 2)) \<le> rnd x * 8" using y by simp_all
  then have z: "0 \<le> z" "z \<le> of_int (8 * ?L)" "of_int (8 * (?L - 2)) \<le> z"
    unfolding z_def using rnd_pos rnd_le[OF r8(1)] rnd_ge[OF r8(2)] by blast+
  then have "z \<le> 1073741824" using l(3) by simp
  then have fz: "fin (d_mul (d_mul (Fin ?u) (d_of_u64 len)) (Fin 8))"
    "val (d_mul (d_mul (Fin ?u) (d_of_u64 len)) (Fin 8)) = z"
    using fy z(1) small_lt_limit[of z 30] by (simp_all add: d_mul_fin fin_to_double val_to_double z_def)
  have t: "8 * (?L - 2) \<le> \<lfloor>z\<rfloor>" "0 \<le> \<lfloor>z\<rfloor>" "\<lfloor>z\<rfloor> \<le> INT_MAX"
    using z(1,3) \<open>z \<le> 1073741824\<close> by (simp_all add: le_floor_iff floor_le_iff del: of_int_mult of_int_diff)
  have "d_to_int (d_mul (d_mul (Fin ?u) (d_of_u64 len)) (Fin 8)) = Inr \<lfloor>z\<rfloor>"
    using fz t z(1) by (simp add: d_to_int_def trunc_def)
  moreover have "8 * (?L - 2) div 8 \<le> \<lfloor>z\<rfloor> div 8" using t(1) by (rule zdiv_mono1) simp
  then have "?L \<le> \<lfloor>z\<rfloor> div 8 + 2" by simp
  then have "flip_bit buf \<lfloor>z\<rfloor> = Inl OutOfBounds" using assms(1) by (simp add: flip_bit_def rd_def)
  ultimately show ?thesis by (simp add: break_bit_def random_eq)
qed

theorem noise_past_end_witness:
  "break_bit 60 0 (replicate 60 0, idle_env\<lparr>e_rng := 142368275371844\<rparr>) = Inl OutOfBounds"
proof -
  have "rng_step 142368275371844 = 281474976710655" by (simp add: rng_step_def)
  then show ?thesis
    using noise_past_end[of "replicate 60 0" 60 "idle_env\<lparr>e_rng := 142368275371844\<rparr>" 0]
    by (simp add: rng_val_def)
qed

end
