(* ===== verification/Format.thy ===== *)
theory Format
  imports Conn
begin

text \<open>
  The conversions \<open>%g\<close> and \<open>%-2d\<close> of \<open>printf\<close>, which the management commands use. \<open>%g\<close> prints six
  significant digits, rounded to nearest, without trailing zeros, with an exponent when that is
  below -4 or above 5. The sign of a NaN is not printed.
\<close>

text \<open>The exponent of the first decimal digit of a positive number.\<close>

definition dec_exp :: "rat \<Rightarrow> int" where
  "dec_exp r =
     (let (n, d) = quotient_of r;
          e = int (length (print_nat (nat n))) - int (length (print_nat (nat d)))
      in if 10 powi e \<le> r then e else e - 1)"

text \<open>Six digits and the exponent of the first.\<close>

definition six_digits :: "rat \<Rightarrow> int \<times> int" where
  "six_digits r =
     (let e = dec_exp r; m = rne (r / 10 powi (e - 5))
      in if 1000000 \<le> m then (m div 10, e + 1) else (m, e))"

definition strip_zeros :: "string \<Rightarrow> string" where
  "strip_zeros s = rev (dropWhile (\<lambda>c. c = CHR ''0'') (rev s))"

definition with_fraction :: "string \<Rightarrow> string \<Rightarrow> string" where
  "with_fraction whole fraction =
     (let f = strip_zeros fraction in if f = [] then whole else whole @ ''.'' @ f)"

definition print_positive :: "rat \<Rightarrow> string" where
  "print_positive r =
     (let (m, e) = six_digits r; ds = print_nat (nat m)
      in if e < - 4 \<or> 6 \<le> e then
           with_fraction (take 1 ds) (drop 1 ds) @ (if e < 0 then ''e-'' else ''e+'') @
             print_zero_padded 2 \<bar>e\<bar>
         else if e < 0 then with_fraction ''0'' (replicate (nat (- e) - 1) CHR ''0'' @ ds)
         else with_fraction (take (nat e + 1) ds) (drop (nat e + 1) ds))"

fun print_g :: "double \<Rightarrow> string" where
  "print_g (Fin r) = (if r = 0 then ''0'' else if r < 0 then ''-'' @ print_positive (- r) else print_positive r)"
| "print_g NegZero = ''-0''"
| "print_g PInf = ''inf''"
| "print_g NInf = ''-inf''"
| "print_g NaN = ''nan''"

definition print_left :: "nat \<Rightarrow> int \<Rightarrow> string" where
  "print_left w i = (let s = print_int i in s @ replicate (w - length s) CHR '' '')"

end
