(* ===== verification/Mgmt.thy ===== *)
theory Mgmt
  imports Format
begin

text \<open>
  \<open>includes/wf_management.c\<close>: the commands of the management socket and of the configuration
  files. The messages of \<open>strerror\<close>, the contents of files, the package version, the process id and
  \<open>VDE_ETHBUFSIZE\<close> (a constant of \<open>libvdeplug.h\<close>) are parameters. A string handed to a command is what stands in the
  buffer after the command's name; what stands before it is an argument, nearest character
  first. Nested \<open>load\<close> commands are bounded by a depth; where the bound is reached the real
  program would recurse on.
\<close>

unbundle bit_operations_syntax

record system =
  sy_strerror :: "int \<Rightarrow> string"
  sy_files :: "string \<Rightarrow> string option"
  sy_version :: string
  sy_pid :: int
  sy_ethbufsize :: nat

definition small_system :: system where
  "small_system = \<lparr>sy_strerror = (\<lambda>_. []), sy_files = (\<lambda>_. None), sy_version = [], sy_pid = 1, sy_ethbufsize = 1544\<rparr>"

definition EINVAL :: int where
  "EINVAL = 22"

definition ENOSYS :: int where
  "ENOSYS = 38"

type_synonym reply = "(int \<times> conn \<times> env) res"

definition put_lines :: "int \<Rightarrow> string list \<Rightarrow> env \<Rightarrow> env" where
  "put_lines fd ls e = fold (put_mgmt fd) ls e"

section \<open>Setting wire values\<close>

definition set_wire :: "conn \<Rightarrow> tag \<Rightarrow> string \<Rightarrow> string \<Rightarrow> int \<Rightarrow> env \<Rightarrow> reply" where
  "set_wire cn tag before arg flags e =
     rbind (setWireValue (cn_markov cn) tag before (Some arg) flags) (\<lambda>mk.
       Inr (0, cn\<lparr>cn_markov := mk\<rparr>, e))"

definition setLoss :: "conn \<Rightarrow> int \<Rightarrow> string \<Rightarrow> string \<Rightarrow> env \<Rightarrow> reply" where
  "setLoss cn fd before arg e = set_wire cn LOSS before arg 0 e"

definition setBurstyLoss :: "conn \<Rightarrow> int \<Rightarrow> string \<Rightarrow> string \<Rightarrow> env \<Rightarrow> reply" where
  "setBurstyLoss cn fd before arg e = set_wire cn BURSTYLOSS before arg 0 e"

definition setDelay :: "conn \<Rightarrow> int \<Rightarrow> string \<Rightarrow> string \<Rightarrow> env \<Rightarrow> reply" where
  "setDelay cn fd before arg e = set_wire cn DELAY before arg 0 e"

definition setDuplicates :: "conn \<Rightarrow> int \<Rightarrow> string \<Rightarrow> string \<Rightarrow> env \<Rightarrow> reply" where
  "setDuplicates cn fd before arg e = set_wire cn DUP before arg 0 e"

definition setBandwidth :: "conn \<Rightarrow> int \<Rightarrow> string \<Rightarrow> string \<Rightarrow> env \<Rightarrow> reply" where
  "setBandwidth cn fd before arg e = set_wire cn BANDWIDTH before arg 0 e"

definition setSpeed :: "conn \<Rightarrow> int \<Rightarrow> string \<Rightarrow> string \<Rightarrow> env \<Rightarrow> reply" where
  "setSpeed cn fd before arg e = set_wire cn SPEED before arg 0 e"

definition setNoise :: "conn \<Rightarrow> int \<Rightarrow> string \<Rightarrow> string \<Rightarrow> env \<Rightarrow> reply" where
  "setNoise cn fd before arg e = set_wire cn NOISE before arg 0 e"

definition setMTU :: "conn \<Rightarrow> int \<Rightarrow> string \<Rightarrow> string \<Rightarrow> env \<Rightarrow> reply" where
  "setMTU cn fd before arg e = set_wire cn MTU before arg WIRE_BIDIRECTIONAL e"

definition setChanbufsize :: "conn \<Rightarrow> int \<Rightarrow> string \<Rightarrow> string \<Rightarrow> env \<Rightarrow> reply" where
  "setChanbufsize cn fd before arg e = set_wire cn CHANBUFSIZE before arg WIRE_BIDIRECTIONAL e"

text \<open>The number is stored in a \<open>char\<close>.\<close>

definition setFIFO :: "conn \<Rightarrow> int \<Rightarrow> string \<Rightarrow> env \<Rightarrow> reply" where
  "setFIFO cn fd arg e =
     rbind (atoi arg) (\<lambda>v. Inr (0, cn\<lparr>cn_queue := (cn_queue cn)\<lparr>q_fifoness := word_of_int v\<rparr>\<rparr>, e))"

section \<open>The Markov chain\<close>

definition markovSetNodeNumber :: "conn \<Rightarrow> int \<Rightarrow> string \<Rightarrow> env \<Rightarrow> reply" where
  "markovSetNodeNumber cn fd arg e =
     rbind (atoi arg) (\<lambda>n. rbind (markovResize (cn_markov cn) n e) (\<lambda>(_, mk, e).
       Inr (0, cn\<lparr>cn_markov := mk\<rparr>, e)))"

definition markovSetCurrentNode :: "conn \<Rightarrow> int \<Rightarrow> string \<Rightarrow> env \<Rightarrow> reply" where
  "markovSetCurrentNode cn fd arg e =
     rbind (atoi arg) (\<lambda>n. Inr (0, cn\<lparr>cn_markov := (cn_markov cn)\<lparr>mk_current_node := n\<rparr>\<rparr>, e))"

definition markovSetNodeName :: "conn \<Rightarrow> int \<Rightarrow> string \<Rightarrow> env \<Rightarrow> reply" where
  "markovSetNodeName cn fd arg e =
     rbind (markovSetNames (cn_markov cn) arg e) (\<lambda>(mk, e). Inr (0, cn\<lparr>cn_markov := mk\<rparr>, e))"

text \<open>The product is computed in a signed 64-bit \<open>long long\<close>.\<close>

definition markovSetTime :: "conn \<Rightarrow> int \<Rightarrow> string \<Rightarrow> env \<Rightarrow> reply" where
  "markovSetTime cn fd arg e =
     rbind (atoll arg) (\<lambda>ms.
       let ns = ms * 1000000
       in if ns < - (2 ^ 63) \<or> 2 ^ 63 \<le> ns then Inl SignedOverflow
          else
            let mk = (cn_markov cn)\<lparr>mk_change_frequency := word_of_int ns\<rparr>
            in rbind (setTimer (mk_timerfd mk) (mk_change_frequency mk) e) (\<lambda>e.
                 Inr (0, cn\<lparr>cn_markov := mk\<rparr>, e)))"

definition markovSetEdge :: "conn \<Rightarrow> int \<Rightarrow> string \<Rightarrow> env \<Rightarrow> reply" where
  "markovSetEdge cn fd arg e =
     rbind (markovSetEdges (cn_markov cn) arg) (\<lambda>mk. Inr (0, cn\<lparr>cn_markov := mk\<rparr>, e))"

definition asked_node :: "conn \<Rightarrow> string \<Rightarrow> int res" where
  "asked_node cn arg = (if arg \<noteq> [] then atoi arg else Inr (mk_current_node (cn_markov cn)))"

definition edge_line :: "int \<Rightarrow> int \<Rightarrow> string option \<Rightarrow> string option \<Rightarrow> double \<Rightarrow> string" where
  "edge_line a b an bn w =
     ''Edge ('' @ print_left 2 a @ '')->('' @ print_left 2 b @ '') '' @ quoted an @ ''->'' @ quoted bn @
     '' weight '' @ print_g w"

definition show_edge :: "conn \<Rightarrow> int \<Rightarrow> int \<Rightarrow> int \<Rightarrow> env \<Rightarrow> env res" where
  "show_edge cn fd node i e =
     rbind (get_adj (cn_markov cn) node i) (\<lambda>w.
       if \<not> d_eq w (Fin 0) then
         rbind (get_node (cn_markov cn) node) (\<lambda>a. rbind (get_node (cn_markov cn) i) (\<lambda>b.
           Inr (put_mgmt fd (edge_line node i (mn_name a) (mn_name b) w) e)))
       else Inr e)"

definition markovShowEdges :: "conn \<Rightarrow> int \<Rightarrow> string \<Rightarrow> env \<Rightarrow> reply" where
  "markovShowEdges cn fd arg e =
     rbind (asked_node cn arg) (\<lambda>node.
       if node < 0 \<or> mk_nodes_count (cn_markov cn) \<le> node then Inr (EINVAL, cn, e)
       else
         rbind (each (show_edge cn fd node) [0..mk_nodes_count (cn_markov cn) - 1] e) (\<lambda>e.
           Inr (0, cn, e)))"

definition markovShowCurrent :: "conn \<Rightarrow> int \<Rightarrow> env \<Rightarrow> reply" where
  "markovShowCurrent cn fd e =
     rbind (markov_current (cn_markov cn)) (\<lambda>node.
       Inr (0, cn, put_mgmt fd (''Current Markov Node '' @ print_int (mk_current_node (cn_markov cn)) @ '' '' @
         quoted (mn_name node) @ '' (0,..,'' @ print_int (mk_nodes_count (cn_markov cn) - 1) @ '')'') e))"

text \<open>The level is stored for the first connection with this descriptor.\<close>

fun set_debug :: "int \<Rightarrow> int \<Rightarrow> int list \<Rightarrow> management \<Rightarrow> (int \<times> management) res" where
  "set_debug fd level [] mg = Inr (EINVAL, mg)"
| "set_debug fd level (i # is) mg =
     rbind (rd (mg_connections mg) i) (\<lambda>c.
       if c = fd then
         rbind (wr (mg_debug_level mg) i level) (\<lambda>ls. Inr (0, mg\<lparr>mg_debug_level := ls\<rparr>))
       else set_debug fd level is mg)"

definition markovSetDebugLevel :: "conn \<Rightarrow> int \<Rightarrow> string \<Rightarrow> env \<Rightarrow> reply" where
  "markovSetDebugLevel cn fd arg e =
     rbind (atoi arg) (\<lambda>debug_level.
       if fd < 0 \<or> debug_level < 0 then Inr (EINVAL, cn, e)
       else
         rbind (set_debug fd debug_level [0..mg_count (cn_management cn) - 1] (cn_management cn)) (\<lambda>(ret, mg).
           Inr (ret, cn\<lparr>cn_management := mg\<rparr>, e)))"

section \<open>Information\<close>

definition help_text :: "string list" where
  "help_text =
    [''COMMAND      HELP'',
     ''------------ ------------'',
     ''help         print a summary of mgmt commands'',
     ''load         load a configuration file'',
     ''showinfo     show status and parameter values'',
     ''loss         set loss percentage'',
     ''lostburst    mean length of lost packet bursts'',
     ''delay        set delay ms'',
     ''dup          set dup packet percentage'',
     ''bandwidth    set channel bandwidth bytes/sec'',
     ''speed        set interface speed bytes/sec'',
     ''noise        set noise factor bits/Mbyte'',
     ''mtu          set channel MTU (bytes)'',
     ''chanbufsize  set channel buffer size (bytes)'',
     ''fifo         set channel fifoness'',
     ''shutdown     shut the channel down'',
     ''logout       log out from this mgmt session'',
     ''markov-numnodes n  markov mode: set number of states'',
     ''markov-setnode n   markov mode: set current state'',
     ''markov-name n,name markov mode: set state'' @ [CHR 0x27] @ ''s name'',
     ''markov-time ms     markov mode: transition period'',
     ''setedge n1,n2,w    markov mode: set edge weight'',
     ''showinfo n         markov mode: show parameter values'',
     ''showedges n        markov mode: show edge weights'',
     ''showcurrent        markov mode: show current state'',
     ''markov-debug n     markov mode: set debug level'']"

definition help_command :: "conn \<Rightarrow> int \<Rightarrow> env \<Rightarrow> reply" where
  "help_command cn fd e = Inr (0, cn, put_lines fd help_text e)"

text \<open>\<open>WIRE_FIELDS\<close> under the format \<open>%g+%g%c\<close>.\<close>

definition wire_fields :: "markov_node \<Rightarrow> tag \<Rightarrow> dir \<Rightarrow> string" where
  "wire_fields node tag d =
     (let wv = mn_value node tag d
      in print_g (wv_value wv) @ ''+'' @ print_g (wv_plus wv) @
         (if wv_algorithm wv = ALGO_UNIFORM then ''U'' else ''N''))"

definition wire_line :: "string \<Rightarrow> markov_node \<Rightarrow> tag \<Rightarrow> string" where
  "wire_line label node tag =
     label @ '' L->R '' @ wire_fields node tag LEFT_TO_RIGHT @ ''   R->L '' @ wire_fields node tag RIGHT_TO_LEFT"

text \<open>A 32-bit or 64-bit value printed by \<open>%d\<close>, which reads its low 32 bits as signed.\<close>

definition print_d :: "u32 \<Rightarrow> string" where
  "print_d w = print_int (sint w)"

definition info_lines :: "conn \<Rightarrow> int \<Rightarrow> markov_node \<Rightarrow> string list" where
  "info_lines cn n node =
    (if 1 < mk_nodes_count (cn_markov cn)
     then [''Node '' @ print_int n @ '' '' @ quoted (mn_name node) @ '' (0,..,'' @
           print_int (mk_nodes_count (cn_markov cn)) @ '') Markov-time '' @
           print_d (ucast (NS_TO_MS (mk_change_frequency (cn_markov cn)))) @ ''ms'']
     else []) @
    [wire_line ''Loss  '' node LOSS, wire_line ''Lburst'' node BURSTYLOSS, wire_line ''Delay '' node DELAY,
     wire_line ''Dup   '' node DUP, wire_line ''Bandw '' node BANDWIDTH, wire_line ''Speed '' node SPEED,
     wire_line ''Noise '' node NOISE,
     ''MTU    L->R '' @ print_g (minWireValue node MTU LEFT_TO_RIGHT) @ ''      R->L '' @
       print_g (minWireValue node MTU RIGHT_TO_LEFT) @ ''   '',
     wire_line ''Cap.  '' node CHANBUFSIZE,
     ''Current Delay Queue size:   L->R '' @ print_d (q_byte_size (cn_queue cn) LEFT_TO_RIGHT) @
       ''      R->L '' @ print_d (q_byte_size (cn_queue cn) RIGHT_TO_LEFT) @ ''   '',
     ''Fifoness '' @ (if q_fifoness (cn_queue cn) = FIFO then ''TRUE'' else ''FALSE''),
     ''Waiting packets in delay queues '' @ print_d (q_size (cn_queue cn))]"

text \<open>The id is the start of the message; the blank after it is overwritten and restored.\<close>

definition blink_lines :: "blink \<Rightarrow> string list res" where
  "blink_lines b =
     rbind (deref (bl_message b)) (\<lambda>block.
     rbind (wr block (bl_id_len b) NUL) (\<lambda>block.
     rbind (c_string block) (\<lambda>id.
       Inr [''Blink socket: '' @ bl_path b, ''Blink id:     '' @ id])))"

definition restore_blank :: "conn \<Rightarrow> conn res" where
  "restore_blank cn =
     rbind (deref (bl_message (cn_blink cn))) (\<lambda>block.
     rbind (wr block (bl_id_len (cn_blink cn)) CHR '' '') (\<lambda>block.
       Inr (cn\<lparr>cn_blink := (cn_blink cn)\<lparr>bl_message := Some block\<rparr>\<rparr>)))"

definition showInfo :: "conn \<Rightarrow> int \<Rightarrow> string \<Rightarrow> env \<Rightarrow> reply" where
  "showInfo cn fd arg e =
     rbind (asked_node cn arg) (\<lambda>n.
       if n < 0 \<or> mk_nodes_count (cn_markov cn) \<le> n then Inr (EINVAL, cn, e)
       else
         rbind (get_node (cn_markov cn) n) (\<lambda>node.
           let e = put_lines fd (''WireFilter'' # info_lines cn n node) e
           in if 0 < bl_socket_fd (cn_blink cn) then
                rbind (blink_lines (cn_blink cn)) (\<lambda>ls. rbind (restore_blank cn) (\<lambda>cn.
                  Inr (0, cn, put_lines fd ls e)))
              else Inr (0, cn, e)))"

definition logout :: "conn \<Rightarrow> env \<Rightarrow> reply" where
  "logout cn e = Inr (- 1, cn, e)"

definition wfShutdown :: "conn \<Rightarrow> env \<Rightarrow> reply" where
  "wfShutdown cn e = Inl (Exit 0)"

end
