(* ===== verification/Dispatch.thy ===== *)
theory Dispatch
  imports Mgmt
begin

text \<open>
  The command interpreter of \<open>includes/wf_management.c\<close>: the table of commands, the search in it,
  \<open>executeCommand\<close>, \<open>loadConfig\<close>, and the handler of a readable client. Log messages are not
  modelled.
\<close>

section \<open>The table\<close>

datatype command =
    Help | Load | ShowInfo | SetLoss | SetBurstyLoss | SetDelay | SetDuplicates | SetBandwidth
  | SetSpeed | SetNoise | SetMTU | SetChanbufsize | SetFIFO | Shutdown | Logout
  | SetNodeNumber | SetCurrentNode | SetNodeName | SetTime_ms | SetEdge | ShowEdges | ShowCurrent
  | SetDebugLevel

text \<open>Name, function, and whether the reply is framed as a file (\<open>WITHFILE\<close>).\<close>

definition commandlist :: "(string \<times> command \<times> bool) list" where
  "commandlist =
    [(''help'', Help, True), (''load'', Load, True), (''showinfo'', ShowInfo, True),
     (''loss'', SetLoss, False), (''lostburst'', SetBurstyLoss, False), (''delay'', SetDelay, False),
     (''dup'', SetDuplicates, False), (''bandwidth'', SetBandwidth, False), (''speed'', SetSpeed, False),
     (''noise'', SetNoise, False), (''mtu'', SetMTU, False), (''chanbufsize'', SetChanbufsize, False),
     (''fifo'', SetFIFO, False), (''shutdown'', Shutdown, False), (''logout'', Logout, False),
     (''markov-numnodes'', SetNodeNumber, False), (''markov-setnode'', SetCurrentNode, False),
     (''markov-name'', SetNodeName, False), (''markov-time'', SetTime_ms, False),
     (''setedge'', SetEdge, False), (''showedges'', ShowEdges, True), (''showcurrent'', ShowCurrent, True),
     (''markov-debug'', SetDebugLevel, False)]"

text \<open>\<open>strncmp(tag, cmd, strlen(tag)) == 0\<close>.\<close>

definition starts_with :: "string \<Rightarrow> string \<Rightarrow> bool" where
  "starts_with tag cmd \<longleftrightarrow> take (length tag) cmd = tag"

fun find_index :: "int \<Rightarrow> (string \<times> command \<times> bool) list \<Rightarrow> string \<Rightarrow> int" where
  "find_index i [] cmd = - 1"
| "find_index i (c # cs) cmd = (if starts_with (fst c) cmd then i else find_index (i + 1) cs cmd)"

definition findCommandIndex :: "string \<Rightarrow> int" where
  "findCommandIndex cmd = find_index 0 commandlist cmd"

section \<open>Execution\<close>

type_synonym loader = "conn \<Rightarrow> int \<Rightarrow> string \<Rightarrow> env \<Rightarrow> reply"

fun run_command :: "loader \<Rightarrow> command \<Rightarrow> conn \<Rightarrow> int \<Rightarrow> string \<Rightarrow> string \<Rightarrow> env \<Rightarrow> reply" where
  "run_command load Help cn fd before arg e = help_command cn fd e"
| "run_command load Load cn fd before arg e = load cn fd arg e"
| "run_command load ShowInfo cn fd before arg e = showInfo cn fd arg e"
| "run_command load SetLoss cn fd before arg e = setLoss cn fd before arg e"
| "run_command load SetBurstyLoss cn fd before arg e = setBurstyLoss cn fd before arg e"
| "run_command load SetDelay cn fd before arg e = setDelay cn fd before arg e"
| "run_command load SetDuplicates cn fd before arg e = setDuplicates cn fd before arg e"
| "run_command load SetBandwidth cn fd before arg e = setBandwidth cn fd before arg e"
| "run_command load SetSpeed cn fd before arg e = setSpeed cn fd before arg e"
| "run_command load SetNoise cn fd before arg e = setNoise cn fd before arg e"
| "run_command load SetMTU cn fd before arg e = setMTU cn fd before arg e"
| "run_command load SetChanbufsize cn fd before arg e = setChanbufsize cn fd before arg e"
| "run_command load SetFIFO cn fd before arg e = setFIFO cn fd arg e"
| "run_command load Shutdown cn fd before arg e = wfShutdown cn e"
| "run_command load Logout cn fd before arg e = logout cn e"
| "run_command load SetNodeNumber cn fd before arg e = markovSetNodeNumber cn fd arg e"
| "run_command load SetCurrentNode cn fd before arg e = markovSetCurrentNode cn fd arg e"
| "run_command load SetNodeName cn fd before arg e = markovSetNodeName cn fd arg e"
| "run_command load SetTime_ms cn fd before arg e = markovSetTime cn fd arg e"
| "run_command load SetEdge cn fd before arg e = markovSetEdge cn fd arg e"
| "run_command load ShowEdges cn fd before arg e = markovShowEdges cn fd arg e"
| "run_command load ShowCurrent cn fd before arg e = markovShowCurrent cn fd e"
| "run_command load SetDebugLevel cn fd before arg e = markovSetDebugLevel cn fd arg e"

definition trim_end :: "string \<Rightarrow> string" where
  "trim_end s = rev (dropWhile is_blank (rev s))"

text \<open>The frame around the reply of a \<open>WITHFILE\<close> command.\<close>

definition framed :: "bool \<Rightarrow> int \<Rightarrow> string \<Rightarrow> env \<Rightarrow> env" where
  "framed withfile fd text e = (if 0 \<le> fd \<and> withfile then put_mgmt fd text e else e)"

definition data_begin :: string where
  "data_begin = ''0000 DATA END WITH '' @ [CHR 0x27] @ ''.'' @ [CHR 0x27]"

definition invoke :: "loader \<Rightarrow> string \<Rightarrow> string \<Rightarrow> conn \<Rightarrow> int \<Rightarrow> env \<Rightarrow> reply" where
  "invoke load before cmd cn fd e =
     (let i = findCommandIndex cmd
      in if i < 0 then Inr (ENOSYS, cn, e)
         else
           rbind (rd commandlist i) (\<lambda>(name, c, withfile).
             let rest = drop (length name) cmd;
                 blanks = takeWhile (\<lambda>c. c = CHR '' '' \<or> c = CHR 0x09) rest;
                 arg = dropWhile (\<lambda>c. c = CHR '' '' \<or> c = CHR 0x09) rest;
                 e = framed withfile fd data_begin e
             in rbind (run_command load c cn fd (rev (name @ blanks) @ before) arg e) (\<lambda>(ret, cn, e).
                  Inr (ret, cn, framed withfile fd ''.'' e))))"

definition status_line :: "system \<Rightarrow> int \<Rightarrow> string" where
  "status_line sy ret =
     (if ret = 0 then ''1000 Success''
      else ''1'' @ print_zero_padded 3 ret @ '' '' @ sy_strerror sy ret)"

definition execute_with :: "loader \<Rightarrow> system \<Rightarrow> conn \<Rightarrow> int \<Rightarrow> string \<Rightarrow> env \<Rightarrow> reply" where
  "execute_with load sy cn fd cmd e =
     (let before = rev (takeWhile is_blank cmd);
          cmd = trim_end (dropWhile is_blank cmd)
      in if cmd \<noteq> [] \<and> hd cmd \<noteq> CHR ''#'' then
           rbind (invoke load before cmd cn fd e) (\<lambda>(ret, cn, e).
             Inr (ret, cn, if 0 \<le> fd then put_mgmt fd (status_line sy ret) e else e))
         else Inr (ENOSYS, cn, e))"

section \<open>Configuration files\<close>

fun fgets :: "nat \<Rightarrow> string \<Rightarrow> string" where
  "fgets 0 s = []"
| "fgets (Suc n) [] = []"
| "fgets (Suc n) (c # s) = c # (if c = NL then [] else fgets n s)"

text \<open>What repeated calls with a buffer of \<open>MNGM_CMD_MAX_LEN\<close> bytes return.\<close>

function fgets_all :: "string \<Rightarrow> string list" where
  "fgets_all s =
     (if s = [] then [] else
        let l = fgets (MNGM_CMD_MAX_LEN - 1) s in l # fgets_all (drop (length l) s))"
  by pat_completeness auto
termination
  by (relation "measure length") (auto simp: MNGM_CMD_MAX_LEN_def numeral_eq_Suc neq_Nil_conv)

declare fgets_all.simps [simp del]

definition prompt :: string where
  "prompt = NL # ''VDEwf$ ''"

definition before_nul :: "string \<Rightarrow> string" where
  "before_nul s = takeWhile (\<lambda>c. c \<noteq> NUL) s"

fun loadConfig :: "nat \<Rightarrow> system \<Rightarrow> conn \<Rightarrow> int \<Rightarrow> string \<Rightarrow> env \<Rightarrow> reply" where
  "loadConfig 0 sy cn fd rc_path e = Inl Diverges"
| "loadConfig (Suc depth) sy cn fd rc_path e =
     (case sy_files sy rc_path of
        None \<Rightarrow> Inr (- 1, cn, e)
      | Some content \<Rightarrow>
          rbind (each (\<lambda>line (cn, e).
                   let buf = before_nul line;
                       e = (if 0 \<le> fd then put_mgmt fd (prompt @ '' ('' @ rc_path @ '') '' @ buf) e else e)
                   in rbind (execute_with (loadConfig depth sy) sy cn fd buf e) (\<lambda>(ret, cn, e).
                        Inr (cn, e))) (fgets_all content) (cn, e)) (\<lambda>(cn, e).
            Inr (0, cn, e)))"

definition executeCommand :: "nat \<Rightarrow> system \<Rightarrow> conn \<Rightarrow> int \<Rightarrow> string \<Rightarrow> env \<Rightarrow> reply" where
  "executeCommand depth sy cn fd cmd e = execute_with (loadConfig depth sy) sy cn fd cmd e"

text \<open>What \<open>read\<close> returned, \<open>None\<close> for an error; a closed connection reads nothing.\<close>

definition handleManagementCommand :: "nat \<Rightarrow> system \<Rightarrow> conn \<Rightarrow> int \<Rightarrow> string option \<Rightarrow> env \<Rightarrow> reply" where
  "handleManagementCommand depth sy cn fd input e =
     (case input of
        None \<Rightarrow> Inr (- 1, cn, e)
      | Some bytes \<Rightarrow>
          if bytes = [] then Inr (- 1, cn, e)
          else
            rbind (executeCommand depth sy cn fd (before_nul (take MNGM_CMD_MAX_LEN bytes)) e) (\<lambda>(ret, cn, e).
              if 0 \<le> ret then
                let (n, e) = syscall (emit (MgmtWrite fd prompt) e)
                in Inr (if n < 0 then - 1 else ret, cn, e)
              else Inr (ret, cn, e)))"

end
