(* ===== verification/Clients.thy ===== *)
theory Clients
  imports Dispatch
begin

text \<open>
  The management socket and the table of connected clients (\<open>includes/wf_management.c\<close>). The
  results of the system calls come from the environment.
\<close>

section \<open>The socket\<close>

text \<open>Each call must succeed; a descriptor opened before a failing call stays open.\<close>

fun all_calls :: "nat \<Rightarrow> env \<Rightarrow> bool \<times> env" where
  "all_calls 0 e = (True, e)"
| "all_calls (Suc k) e = (let (r, e) = syscall e in if r < 0 then (False, e) else all_calls k e)"

text \<open>\<open>socket\<close>, \<open>setsockopt\<close>, \<open>fcntl\<close>, \<open>bind\<close>, then \<open>chmod\<close>, whose result is ignored, then \<open>listen\<close>.\<close>

definition createManagementSocket :: "conn \<Rightarrow> string \<Rightarrow> env \<Rightarrow> int \<times> conn \<times> env" where
  "createManagementSocket cn socket_name e =
     (let (socket_fd, e) = syscall e
      in if socket_fd < 0 then (- 1, cn, e)
         else
           let (ok, e) = all_calls 3 e
           in if \<not> ok then (- 1, cn, e)
              else
                let (_, e) = syscall e; (listening, e) = syscall e
                in if listening < 0 then (- 1, cn, e)
                   else (0, cn\<lparr>cn_management := (cn_management cn)\<lparr>mg_socket_fd := socket_fd\<rparr>\<rparr>, e))"

definition initManagement :: "conn \<Rightarrow> string \<Rightarrow> string option \<Rightarrow> env \<Rightarrow> (int \<times> conn \<times> env) res" where
  "initManagement cn socket_path mode_str e =
     rbind (case mode_str of None \<Rightarrow> Inr None | Some s \<Rightarrow> sscanf_octal s) (\<lambda>mode.
       let mg = (cn_management cn)\<lparr>mg_mode := (case mode of None \<Rightarrow> 448 | Some m \<Rightarrow> m),
                                   mg_count := 0, mg_socket_name := socket_path\<rparr>;
           (ret, cn, e) = createManagementSocket (cn\<lparr>cn_management := mg\<rparr>) socket_path e
       in Inr (if ret < 0 then - 1 else 0, cn, e))"

definition closeManagement :: "conn \<Rightarrow> env \<Rightarrow> env" where
  "closeManagement cn e =
     emit (RemoveFile (mg_socket_name (cn_management cn)))
       (emit (CloseFd (mg_socket_fd (cn_management cn))) e)"

section \<open>The table of clients\<close>

definition header :: "system \<Rightarrow> string" where
  "header sy = snprintf MNGM_CMD_MAX_LEN (NL # ''VDE wirefilter V.'' @ sy_version sy @ [NL])"

definition add_client :: "management \<Rightarrow> int \<Rightarrow> management res" where
  "add_client mg fd =
     rbind (wr (mg_connections mg) (mg_count mg) fd) (\<lambda>cs.
     rbind (wr (mg_debug_level mg) (mg_count mg) 0) (\<lambda>ds.
       Inr (mg\<lparr>mg_connections := cs, mg_debug_level := ds, mg_count := mg_count mg + 1\<rparr>)))"

definition acceptManagementConnection :: "system \<Rightarrow> conn \<Rightarrow> env \<Rightarrow> (int \<times> conn \<times> env) res" where
  "acceptManagementConnection sy cn e =
     (let (new_connection, e) = syscall e
      in if new_connection < 0 then Inr (- 1, cn, e)
         else if mg_count (cn_management cn) < MNGM_MAX_CONN then
           let (n, e) = syscall (emit (MgmtWrite new_connection (header sy)) e)
           in if n < 0 then Inr (- 1, cn, e)
              else
                let (n, e) = syscall (emit (MgmtWrite new_connection prompt) e)
                in if n < 0 then Inr (- 1, cn, e)
                   else
                     rbind (add_client (cn_management cn) new_connection) (\<lambda>mg.
                       Inr (new_connection, cn\<lparr>cn_management := mg\<rparr>, e))
         else Inr (- 1, cn, emit (CloseFd new_connection) e))"

text \<open>The first entry with the descriptor, or the number of entries.\<close>

fun find_client :: "int list \<Rightarrow> int \<Rightarrow> int list \<Rightarrow> int \<Rightarrow> int res" where
  "find_client table fd [] index = Inr index"
| "find_client table fd (i # is) index =
     rbind (rd table i) (\<lambda>c. if c = fd then Inr i else find_client table fd is (i + 1))"

text \<open>\<open>memmove(&a[i], &a[i + 1], n * sizeof(a[0]))\<close>.\<close>

definition shift_left :: "'a list \<Rightarrow> int \<Rightarrow> int \<Rightarrow> 'a list res" where
  "shift_left a i n =
     (if 0 \<le> i \<and> 0 \<le> n \<and> (n = 0 \<or> i + 1 + n \<le> int (length a))
      then Inr (take (nat i) a @ take (nat n) (drop (nat i + 1) a) @ drop (nat i + nat n) a)
      else Inl OutOfBounds)"

text \<open>The caller decrements the number of connections.\<close>

definition closeManagementConnection :: "conn \<Rightarrow> int \<Rightarrow> env \<Rightarrow> (int \<times> conn \<times> env) res" where
  "closeManagementConnection cn fd e =
     (let mg = cn_management cn
      in rbind (find_client (mg_connections mg) fd [0..mg_count mg - 1] 0) (\<lambda>index.
         rbind (rd (mg_connections mg) index) (\<lambda>c.
           if c \<noteq> fd then Inr (- 1, cn, e)
           else
             rbind (shift_left (mg_connections mg) index (mg_count mg - index - 1)) (\<lambda>cs.
             rbind (shift_left (mg_debug_level mg) index (mg_count mg - index - 1)) (\<lambda>ds.
               Inr (0, cn\<lparr>cn_management := mg\<lparr>mg_connections := cs, mg_debug_level := ds\<rparr>\<rparr>,
                    emit (CloseFd c) e))))))"

end
