(* ===== verification/Plugin.thy ===== *)
theory Plugin
  imports Clients
begin

text \<open>
  The entry points of the plugin (first half of \<open>libvdeplug_wirefilter.c\<close>): opening and closing a
  connection, the blink socket, the pid file, and the two operations the VDE library calls for
  packets. What \<open>vde_parsenestparms\<close> and \<open>vde_parsepathparms\<close> make of the URL is a parameter.
\<close>

unbundle bit_operations_syntax

section \<open>The blink socket\<close>

text \<open>\<open>sun_path\<close> has 108 bytes, the last of which stays zero.\<close>

definition openBlinkSocket :: "conn \<Rightarrow> string \<Rightarrow> env \<Rightarrow> int \<times> conn \<times> env" where
  "openBlinkSocket cn socket_path e =
     (let (fd, e) = syscall e;
          cn = cn\<lparr>cn_blink := (cn_blink cn)\<lparr>bl_path := take 107 socket_path, bl_socket_fd := fd\<rparr>\<rparr>
      in (if fd = - 1 then - 1 else 0, cn, e))"

text \<open>Id, blank, room for the text of a message, terminator; the result is that of \<open>asprintf\<close>.\<close>

definition setBlinkId :: "system \<Rightarrow> conn \<Rightarrow> string option \<Rightarrow> env \<Rightarrow> int \<times> conn \<times> env" where
  "setBlinkId sy cn blink_id e =
     (let to_set_id = (case blink_id of None \<Rightarrow> snprintf 7 (print_zero_padded 6 (sy_pid sy)) | Some s \<Rightarrow> s);
          text = to_set_id @ replicate (Suc BLINK_MESSAGE_CONTENT_SIZE) CHR '' '';
          b = (cn_blink cn)\<lparr>bl_id_len := int (length to_set_id)\<rparr>;
          (ok, e) = alloc e
      in if ok then (int (length text), cn\<lparr>cn_blink := b\<lparr>bl_message := Some (text @ [NUL])\<rparr>\<rparr>, e)
         else (- 1, cn\<lparr>cn_blink := b\<lparr>bl_message := None\<rparr>\<rparr>, e))"

definition closeBlink :: "conn \<Rightarrow> env \<Rightarrow> env" where
  "closeBlink cn e =
     emit (RemoveFile (bl_path (cn_blink cn))) (emit (CloseFd (bl_socket_fd (cn_blink cn))) e)"

section \<open>The pid file\<close>

text \<open>A negative answer stands for \<open>NULL\<close>.\<close>

definition savePidFile :: "system \<Rightarrow> string \<Rightarrow> env \<Rightarrow> int \<times> env" where
  "savePidFile sy path e =
     (let (fout, e) = syscall e
      in if fout < 0 then (- 1, e)
         else
           let (n, e) = syscall (emit (WriteFile path (print_int (sy_pid sy) @ [NL])) e)
           in if n < 0 then (- 1, e) else (0, e))"

section \<open>Opening a connection\<close>

text \<open>
  The parameters of the URL, \<open>None\<close> for one that is not given. For the wire values also what
  stands before the value in the buffer, nearest character first.
\<close>

record options =
  op_rc :: "string option"
  op_wire :: "tag \<Rightarrow> string option"
  op_before :: "tag \<Rightarrow> string"
  op_nofifo :: "string option"
  op_blink :: "string option"
  op_blinkid :: "string option"
  op_mgmt :: "string option"
  op_mgmtmode :: "string option"
  op_pidfile :: "string option"

record url_parser =
  up_nested :: "string \<Rightarrow> string"
  up_options :: "string \<Rightarrow> options option"

definition seed :: "system \<Rightarrow> env \<Rightarrow> env" where
  "seed sy e =
     (let v = e_clock e (e_reads e)
      in e\<lparr>e_reads := Suc (e_reads e),
           e_rng := srand48 (word_of_int (tv_sec v XOR tv_usec v XOR sy_pid sy))\<rparr>)"

text \<open>Two descriptors; the allocation of the array they are written to is not checked.\<close>

definition open_pipe :: "bool \<Rightarrow> env \<Rightarrow> (int \<times> int) option \<times> env" where
  "open_pipe allocated e =
     (let (ret, e) = syscall e
      in if \<not> allocated \<or> ret \<noteq> 0 then (None, e)
         else let (r, e) = syscall e; (w, e) = syscall e in (Some (r, w), e))"

definition open_pipes :: "conn \<Rightarrow> env \<Rightarrow> int \<times> conn \<times> env" where
  "open_pipes cn e =
     (let (send_ok, e) = alloc e; (receive_ok, e) = alloc e; (snd_pipe, e) = open_pipe send_ok e
      in case snd_pipe of
           None \<Rightarrow> (- 1, cn, e)
         | Some sp \<Rightarrow>
             let (rcv_pipe, e) = open_pipe receive_ok e
             in (case rcv_pipe of
                   None \<Rightarrow> (- 1, cn\<lparr>cn_send_pipe := sp\<rparr>, e)
                 | Some rp \<Rightarrow> (0, cn\<lparr>cn_send_pipe := sp, cn_receive_pipe := rp\<rparr>, e)))"

definition init_parts :: "options \<Rightarrow> conn \<Rightarrow> env \<Rightarrow> reply" where
  "init_parts opts cn e =
     (let (ret, q, e) = initQueue (if op_nofifo opts = None then FIFO else NO_FIFO) (cn_queue cn) e;
          cn = cn\<lparr>cn_queue := q\<rparr>
      in if ret < 0 then Inr (- 1, cn, e)
         else
           rbind (initMarkov (cn_markov cn) 1 0 100000000 e) (\<lambda>(ret, mk, e).
             Inr (if ret < 0 then - 1 else 0, cn\<lparr>cn_markov := mk\<rparr>, e)))"

text \<open>The wire values in the order of the code, with the flags they are set with.\<close>

definition open_order :: "(tag \<times> int) list" where
  "open_order =
    [(DELAY, 0), (DUP, 0), (LOSS, 0), (BURSTYLOSS, 0), (MTU, WIRE_BIDIRECTIONAL),
     (CHANBUFSIZE, WIRE_BIDIRECTIONAL), (BANDWIDTH, 0), (SPEED, 0), (NOISE, 0)]"

definition set_wires :: "options \<Rightarrow> markov \<Rightarrow> markov res" where
  "set_wires opts mk =
     each (\<lambda>(tag, flags) mk. setWireValue mk tag (op_before opts tag) (op_wire opts tag) flags) open_order mk"

definition init_limits :: "conn \<Rightarrow> env \<Rightarrow> int \<times> conn \<times> env" where
  "init_limits cn e =
     (let (fd, e) = syscall e;
          cn = cn\<lparr>cn_speed_next := (\<lambda>_. 0), cn_speed_timer := fd\<rparr>
      in if fd < 0 then (- 1, cn, e) else (0, cn\<lparr>cn_bandwidth_next := (\<lambda>_. 0)\<rparr>, e))"

definition open_blink :: "system \<Rightarrow> options \<Rightarrow> conn \<Rightarrow> env \<Rightarrow> int \<times> conn \<times> env" where
  "open_blink sy opts cn e =
     (case op_blink opts of
        None \<Rightarrow> (0, cn, e)
      | Some path \<Rightarrow>
          let (ret, cn, e) = openBlinkSocket cn path e
          in if ret < 0 then (- 1, cn, e)
             else let (ret, cn, e) = setBlinkId sy cn (op_blinkid opts) e
                  in (if ret < 0 then - 1 else 0, cn, e))"

definition open_management :: "options \<Rightarrow> conn \<Rightarrow> env \<Rightarrow> reply" where
  "open_management opts cn e =
     (let cn = cn\<lparr>cn_management := (cn_management cn)\<lparr>mg_socket_fd := - 1\<rparr>\<rparr>
      in case op_mgmt opts of
           None \<Rightarrow> Inr (0, cn, e)
         | Some path \<Rightarrow> initManagement cn path (op_mgmtmode opts) e)"

definition load_rc :: "nat \<Rightarrow> system \<Rightarrow> options \<Rightarrow> conn \<Rightarrow> env \<Rightarrow> reply" where
  "load_rc depth sy opts cn e =
     (case op_rc opts of None \<Rightarrow> Inr (0, cn, e) | Some path \<Rightarrow> loadConfig depth sy cn (- 1) path e)"

definition save_pid :: "system \<Rightarrow> options \<Rightarrow> env \<Rightarrow> int \<times> env" where
  "save_pid sy opts e = (case op_pidfile opts of None \<Rightarrow> (0, e) | Some path \<Rightarrow> savePidFile sy path e)"

definition start_thread :: "env \<Rightarrow> int \<times> env" where
  "start_thread e =
     (let (ret, e) = syscall e
      in if ret \<noteq> 0 then (- 1, e)
         else let (ret, e) = syscall (emit StartThread e) in (if ret \<noteq> 0 then - 1 else 0, e))"

text \<open>On an error only the nested connection is closed.\<close>

definition give_up :: "env \<Rightarrow> (conn option \<times> env) res" where
  "give_up e = Inr (None, snd (syscall (emit VdeClose e)))"

definition and_then :: "reply \<Rightarrow> (conn \<Rightarrow> env \<Rightarrow> (conn option \<times> env) res) \<Rightarrow> (conn option \<times> env) res" where
  "and_then r k = rbind r (\<lambda>(ret, cn, e). if ret < 0 then give_up e else k cn e)"

text \<open>The last steps: pid file, lock and thread.\<close>

definition finish_open :: "system \<Rightarrow> options \<Rightarrow> conn \<Rightarrow> env \<Rightarrow> (conn option \<times> env) res" where
  "finish_open sy opts cn e =
     (let (ret, e) = save_pid sy opts e
      in if ret < 0 then give_up e
         else let (ret, e) = start_thread e
              in if ret < 0 then give_up e else Inr (Some cn, e))"

text \<open>What follows the wire values.\<close>

definition open_rest :: "nat \<Rightarrow> system \<Rightarrow> options \<Rightarrow> conn \<Rightarrow> env \<Rightarrow> (conn option \<times> env) res" where
  "open_rest depth sy opts cn e =
     and_then (Inr (init_limits cn e)) (\<lambda>cn e.
     and_then (Inr (open_blink sy opts cn e)) (\<lambda>cn e.
     and_then (open_management opts cn e) (\<lambda>cn e.
     and_then (load_rc depth sy opts cn e) (finish_open sy opts))))"

definition build_conn :: "nat \<Rightarrow> system \<Rightarrow> options \<Rightarrow> env \<Rightarrow> (conn option \<times> env) res" where
  "build_conn depth sy opts e =
     (let (ok, e) = alloc e
      in if \<not> ok then give_up e
         else
           and_then (Inr (open_pipes zero_conn e)) (\<lambda>cn e.
           and_then (init_parts opts cn e) (\<lambda>cn e.
           rbind (set_wires opts (cn_markov cn)) (\<lambda>mk. open_rest depth sy opts (cn\<lparr>cn_markov := mk\<rparr>) e))))"

definition vde_wirefilter_open ::
  "nat \<Rightarrow> system \<Rightarrow> url_parser \<Rightarrow> string \<Rightarrow> env \<Rightarrow> (conn option \<times> env) res" where
  "vde_wirefilter_open depth sy up vde_url e =
     (let e = seed sy e
      in case up_options up vde_url of
           None \<Rightarrow> Inr (None, e)
         | Some opts \<Rightarrow>
             let (nested_conn, e) = syscall (emit (VdeOpen (up_nested up vde_url)) e)
             in if nested_conn < 0 then Inr (None, e) else build_conn depth sy opts e)"

section \<open>Closing\<close>

text \<open>The message of the blink socket is not freed and clients are not disconnected.\<close>

definition vde_wirefilter_close :: "conn \<Rightarrow> env \<Rightarrow> int \<times> env" where
  "vde_wirefilter_close cn e =
     (let e = emit CancelThread e;
          e = emit (CloseFd (fst (cn_send_pipe cn))) e; e = emit (CloseFd (snd (cn_send_pipe cn))) e;
          e = emit (CloseFd (fst (cn_receive_pipe cn))) e; e = emit (CloseFd (snd (cn_receive_pipe cn))) e;
          e = release (release e);
          e = emit (CloseFd (cn_speed_timer cn)) e;
          e = closeMarkov (cn_markov cn) (closeQueue (cn_queue cn) e);
          e = (if 0 < mg_socket_fd (cn_management cn) then closeManagement cn e else e);
          e = (if 0 < bl_socket_fd (cn_blink cn) then closeBlink cn e else e);
          (ret_value, e) = syscall (emit VdeClose e)
      in (ret_value, release e))"

section \<open>Packets\<close>

text \<open>
  The result of \<open>poll\<close>, whether the receive pipe is readable, and what \<open>read\<close> returns, \<open>None\<close> for
  an error. The lock taken by \<open>sendPacket\<close> is released here, by another thread.
\<close>

definition vde_wirefilter_recv :: "int \<Rightarrow> bool \<Rightarrow> byte list option \<Rightarrow> env \<Rightarrow> int \<times> byte list \<times> env" where
  "vde_wirefilter_recv polled readable input e =
     (if 0 < polled \<and> readable then
        case input of
          None \<Rightarrow> (1, [], emit UnlockReceive e)
        | Some data \<Rightarrow> (int (length data), data, emit UnlockReceive e)
      else (1, [], e))"

text \<open>The packet is what goes into the send pipe. The pause is converted to 32 bits.\<close>

definition send_pause :: "conn \<Rightarrow> u64 \<Rightarrow> env \<Rightarrow> env" where
  "send_pause cn now e =
     (if now < cn_speed_next cn LEFT_TO_RIGHT
      then emit (SleepUs (ucast (NS_TO_US (cn_speed_next cn LEFT_TO_RIGHT - now)))) e else e)"

definition vde_wirefilter_send ::
  "conn \<Rightarrow> byte list \<Rightarrow> u64 \<Rightarrow> int \<Rightarrow> env \<Rightarrow> (int \<times> packet option \<times> env) res" where
  "vde_wirefilter_send cn buf len flags e =
     rbind (now_ns e) (\<lambda>(now, e).
       let (ok, e) = alloc (send_pause cn now e)
       in if \<not> ok then Inr (- 1, None, e)
          else
            let (ok, e) = alloc e
            in if \<not> ok then Inr (- 1, None, e)
               else if length buf < unat len then Inl OutOfBounds
               else
                 let packet = \<lparr>pk_buf = take (unat len) buf, pk_len = len, pk_flags = flags,
                               pk_direction = LEFT_TO_RIGHT\<rparr>;
                     (n, e) = syscall e
                 in if n < 0 then Inr (- 1, None, e) else Inr (0, Some packet, e))"

definition vde_wirefilter_datafd :: "conn \<Rightarrow> int" where
  "vde_wirefilter_datafd cn = fst (cn_receive_pipe cn)"

text \<open>The answer of the nested connection.\<close>

definition vde_wirefilter_ctlfd :: "conn \<Rightarrow> env \<Rightarrow> int \<times> env" where
  "vde_wirefilter_ctlfd cn e = syscall e"

end
