(* ===== verification/Thread.thy ===== *)
theory Thread
  imports Plugin Handlers_Props
begin

text \<open>
  The packet thread of \<open>libvdeplug_wirefilter.c\<close>: the table it polls and one round of its loop,
  from the return of \<open>poll\<close> to the next call. What the kernel and the nested connection answer in a
  round is an argument.
\<close>

unbundle bit_operations_syntax

type_synonym flags16 = "16 word"

definition POLLIN :: flags16 where
  "POLLIN = 1"

definition POLLHUP :: flags16 where
  "POLLHUP = 16"

record pollfd =
  pf_fd :: int
  pf_events :: flags16
  pf_revents :: flags16

definition POLL_PIPE_LR :: int where
  "POLL_PIPE_LR = 0"

definition POLL_PIPE_RL :: int where
  "POLL_PIPE_RL = 1"

definition POLL_QUEUE_TIMER :: int where
  "POLL_QUEUE_TIMER = 2"

definition POLL_SPEED_TIMER :: int where
  "POLL_SPEED_TIMER = 3"

definition POLL_MARKOV_TIMER :: int where
  "POLL_MARKOV_TIMER = 4"

definition POLL_MNGM :: int where
  "POLL_MNGM = 5"

text \<open>The table and the round's answers.\<close>

definition polled :: "int \<Rightarrow> pollfd" where
  "polled fd = \<lparr>pf_fd = fd, pf_events = POLLIN, pf_revents = 0\<rparr>"

definition unused :: pollfd where
  "unused = \<lparr>pf_fd = - 1, pf_events = 0, pf_revents = 0\<rparr>"

definition thread_start :: "conn \<Rightarrow> env \<Rightarrow> (pollfd list \<times> env) res" where
  "thread_start cn e =
     (let (datafd, e) = syscall e;
          table = map polled [fst (cn_send_pipe cn), datafd, q_timerfd (cn_queue cn), cn_speed_timer cn,
                              mk_timerfd (cn_markov cn), mg_socket_fd (cn_management cn)]
                  @ replicate (nat MNGM_MAX_CONN) unused
      in rbind (setTimer (mk_timerfd (cn_markov cn)) (mk_change_frequency (cn_markov cn)) e) (\<lambda>e.
           Inr (table, e)))"

record round =
  ro_poll :: int
  ro_revents :: "flags16 list"
  ro_sent :: "packet option"
  ro_received :: "byte list option"
  ro_input :: "int \<Rightarrow> string option"

definition poll_results :: "flags16 list \<Rightarrow> pollfd list \<Rightarrow> pollfd list" where
  "poll_results revents table = map2 (\<lambda>r p. p\<lparr>pf_revents := r\<rparr>) revents table"

definition ready :: "pollfd list \<Rightarrow> int \<Rightarrow> flags16 \<Rightarrow> bool res" where
  "ready table i bits = rbind (rd table i) (\<lambda>p. Inr (pf_revents p AND bits \<noteq> 0))"

definition set_events :: "pollfd list \<Rightarrow> int \<Rightarrow> (flags16 \<Rightarrow> flags16) \<Rightarrow> pollfd list res" where
  "set_events table i f = rbind (rd table i) (\<lambda>p. wr table i (p\<lparr>pf_events := f (pf_events p)\<rparr>))"

section \<open>Packets\<close>

text \<open>A packet from the left: what the pipe holds is handled, then freed.\<close>

definition left_packet :: "libm \<Rightarrow> round \<Rightarrow> conn \<Rightarrow> env \<Rightarrow> (conn \<times> env) res" where
  "left_packet m ro cn e =
     rbind (initialised (ro_sent ro)) (\<lambda>packet.
     rbind (handlePacket m cn packet e) (\<lambda>(cn, e). Inr (cn, packetDestroy packet e)))"

definition right_frame :: "byte list \<Rightarrow> packet" where
  "right_frame data =
     \<lparr>pk_buf = data, pk_len = word_of_nat (length data), pk_flags = 0, pk_direction = RIGHT_TO_LEFT\<rparr>"

text \<open>
  A packet from the right. The result tells whether the round goes on: an error skips the rest of
  it. Above the speed limit nothing is received and the speed timer will open the way again.
\<close>

definition right_packet ::
  "libm \<Rightarrow> system \<Rightarrow> round \<Rightarrow> pollfd list \<Rightarrow> conn \<Rightarrow> env \<Rightarrow> (bool \<times> pollfd list \<times> conn \<times> env) res" where
  "right_packet m sy ro table cn e =
     rbind (now_ns e) (\<lambda>(now, e).
       if now < cn_speed_next cn RIGHT_TO_LEFT then
         rbind (set_events table POLL_PIPE_RL (\<lambda>ev. ev AND NOT POLLIN)) (\<lambda>table.
         rbind (setTimer (cn_speed_timer cn) (cn_speed_next cn RIGHT_TO_LEFT - now) e) (\<lambda>e.
           Inr (True, table, cn, e)))
       else
         (case ro_received ro of
            None \<Rightarrow> Inr (False, table, cn, e)
          | Some data \<Rightarrow>
              if sy_ethbufsize sy < length data then Inl OutOfBounds
              else if length data \<le> 1 then Inr (True, table, cn, e)
              else
                let (ok, e) = alloc e
                in if \<not> ok then Inr (False, table, cn, e)
                   else
                     let (ok, e) = alloc e
                     in if \<not> ok then Inr (False, table, cn, e)
                        else
                          rbind (handlePacket m cn (right_frame data) e) (\<lambda>(cn, e).
                            Inr (True, table, cn, packetDestroy (right_frame data) e))))"

section \<open>The delay queue\<close>

lemma sendPacket_queue: "sendPacket cn p e = Inr (cn', e') \<Longrightarrow> cn_queue cn' = cn_queue cn"
  by (auto simp: sendPacket_def send_blink_def syscall_def Let_def rbind_eq_Inr split: if_splits)

lemma dequeue_shrinks: "dequeue q e = Inr (p, q', e') \<Longrightarrow> q_size q \<noteq> 0 \<Longrightarrow> q_size q' = q_size q - 1"
  by (auto simp: dequeue_def Let_def rbind_eq_Inr split: if_splits)

text \<open>What is due is sent.\<close>

function send_due :: "conn \<Rightarrow> env \<Rightarrow> (conn \<times> env) res" where
  "send_due cn e =
     (if 0 < q_size (cn_queue cn) then
        rbind (nextQueueTime (cn_queue cn)) (\<lambda>due. rbind (now_ns e) (\<lambda>(now, e).
          if due < now then
            rbind (dequeue (cn_queue cn) e) (\<lambda>(p, q, e).
            rbind (deref p) (\<lambda>packet.
            rbind (sendPacket (cn\<lparr>cn_queue := q\<rparr>) packet e) (\<lambda>(cn, e). send_due cn e)))
          else Inr (cn, e)))
      else Inr (cn, e))"
  by pat_completeness auto
termination
  by (relation "measure (\<lambda>(cn, e). unat (q_size (cn_queue cn)))")
    (auto dest!: sendPacket_queue dequeue_shrinks simp: word_gt_0 unat_minus_one unat_gt_0)

declare send_due.simps [simp del]

definition queue_timer :: "conn \<Rightarrow> env \<Rightarrow> (conn \<times> env) res" where
  "queue_timer cn e =
     rbind (disarmTimer (q_timerfd (cn_queue cn)) e) (\<lambda>e.
     rbind (send_due cn e) (\<lambda>(cn, e).
       if 0 < q_size (cn_queue cn)
       then rbind (setQueueTimer (cn_queue cn) e) (\<lambda>e. Inr (cn, e)) else Inr (cn, e)))"

section \<open>The other timers\<close>

definition speed_timer :: "pollfd list \<Rightarrow> conn \<Rightarrow> env \<Rightarrow> (pollfd list \<times> env) res" where
  "speed_timer table cn e =
     rbind (disarmTimer (cn_speed_timer cn) e) (\<lambda>e.
     rbind (set_events table POLL_PIPE_RL (\<lambda>ev. ev OR POLLIN)) (\<lambda>table. Inr (table, e)))"

definition markov_timer :: "conn \<Rightarrow> env \<Rightarrow> (conn \<times> env) res" where
  "markov_timer cn e =
     rbind (setTimer (mk_timerfd (cn_markov cn)) (mk_change_frequency (cn_markov cn)) e) (\<lambda>e.
       markovStep cn (mk_current_node (cn_markov cn)) e)"

section \<open>Management clients\<close>

definition accept_client ::
  "system \<Rightarrow> pollfd list \<Rightarrow> conn \<Rightarrow> env \<Rightarrow> (pollfd list \<times> conn \<times> env) res" where
  "accept_client sy table cn e =
     rbind (acceptManagementConnection sy cn e) (\<lambda>(new_conn, cn, e).
       if 0 < new_conn then
         let i = POLL_MNGM + mg_count (cn_management cn)
         in rbind (rd table i) (\<lambda>p.
            rbind (wr table i (p\<lparr>pf_fd := new_conn, pf_events := POLLIN OR POLLHUP\<rparr>)) (\<lambda>table.
              Inr (table, cn, e)))
       else Inr (table, cn, e))"

definition client_command ::
  "nat \<Rightarrow> system \<Rightarrow> round \<Rightarrow> pollfd list \<Rightarrow> int \<Rightarrow> conn \<times> env \<Rightarrow> (conn \<times> env) res" where
  "client_command depth sy ro table i = (\<lambda>(cn, e).
     rbind (rd table (POLL_MNGM + i)) (\<lambda>p.
       if pf_revents p AND POLLIN \<noteq> 0 then
         rbind (handleManagementCommand depth sy cn (pf_fd p) (ro_input ro (pf_fd p)) e) (\<lambda>(ret, cn, e).
           Inr (cn, e))
       else Inr (cn, e)))"

definition client_commands ::
  "nat \<Rightarrow> system \<Rightarrow> round \<Rightarrow> pollfd list \<Rightarrow> conn \<Rightarrow> env \<Rightarrow> (conn \<times> env) res" where
  "client_commands depth sy ro table cn e =
     each (client_command depth sy ro table) [1..mg_count (cn_management cn)] (cn, e)"

text \<open>A client that hung up leaves both tables; what follows it moves up and is looked at next.\<close>

definition drop_client :: "pollfd list \<Rightarrow> int \<Rightarrow> conn \<Rightarrow> env \<Rightarrow> (pollfd list \<times> conn \<times> env) res" where
  "drop_client table i cn e =
     rbind (rd table (POLL_MNGM + i)) (\<lambda>p.
     rbind (closeManagementConnection cn (pf_fd p) e) (\<lambda>(ret, cn, e).
       let count = mg_count (cn_management cn)
       in rbind (shift_left table (POLL_MNGM + i) (count - i)) (\<lambda>table.
          rbind (rd table (POLL_MNGM + count)) (\<lambda>p.
          rbind (wr table (POLL_MNGM + count) (p\<lparr>pf_fd := - 1\<rparr>)) (\<lambda>table.
            Inr (table, cn\<lparr>cn_management := (cn_management cn)\<lparr>mg_count := count - 1\<rparr>\<rparr>, e))))))"

lemma closeManagementConnection_count:
  "closeManagementConnection cn fd e = Inr (ret, cn', e') \<Longrightarrow> mg_count (cn_management cn') = mg_count (cn_management cn)"
  by (auto simp: closeManagementConnection_def Let_def rbind_eq_Inr split: if_splits)

lemma drop_client_count:
  "drop_client table i cn e = Inr (table', cn', e') \<Longrightarrow>
     mg_count (cn_management cn') = mg_count (cn_management cn) - 1"
  by (auto simp: drop_client_def Let_def rbind_eq_Inr dest: closeManagementConnection_count split: if_splits)

function hang_ups :: "pollfd list \<Rightarrow> int \<Rightarrow> conn \<Rightarrow> env \<Rightarrow> (pollfd list \<times> conn \<times> env) res" where
  "hang_ups table i cn e =
     (if i \<le> mg_count (cn_management cn) then
        rbind (ready table (POLL_MNGM + i) POLLHUP) (\<lambda>hup.
          if hup then rbind (drop_client table i cn e) (\<lambda>(table, cn, e). hang_ups table i cn e)
          else hang_ups table (i + 1) cn e)
      else Inr (table, cn, e))"
  by pat_completeness auto
termination
  by (relation "measure (\<lambda>(table, i, cn, e). nat (mg_count (cn_management cn) + 1 - i))")
    (auto dest!: drop_client_count)

declare hang_ups.simps [simp del]

section \<open>One round\<close>

definition when_ready ::
  "int \<Rightarrow> (pollfd list \<Rightarrow> conn \<Rightarrow> env \<Rightarrow> (pollfd list \<times> conn \<times> env) res) \<Rightarrow>
   pollfd list \<Rightarrow> conn \<Rightarrow> env \<Rightarrow> (pollfd list \<times> conn \<times> env) res" where
  "when_ready i f table cn e =
     rbind (ready table i POLLIN) (\<lambda>r. if r then f table cn e else Inr (table, cn, e))"

definition keep_table ::
  "(conn \<Rightarrow> env \<Rightarrow> (conn \<times> env) res) \<Rightarrow> pollfd list \<Rightarrow> conn \<Rightarrow> env \<Rightarrow> (pollfd list \<times> conn \<times> env) res" where
  "keep_table f table cn e = rbind (f cn e) (\<lambda>(cn, e). Inr (table, cn, e))"

definition timers :: "pollfd list \<Rightarrow> conn \<Rightarrow> env \<Rightarrow> (pollfd list \<times> conn \<times> env) res" where
  "timers table cn e =
     rbind (when_ready POLL_QUEUE_TIMER (keep_table queue_timer) table cn e) (\<lambda>(table, cn, e).
     rbind (when_ready POLL_SPEED_TIMER (\<lambda>table cn e.
              rbind (speed_timer table cn e) (\<lambda>(table, e). Inr (table, cn, e))) table cn e) (\<lambda>(table, cn, e).
       when_ready POLL_MARKOV_TIMER (keep_table markov_timer) table cn e))"

definition clients ::
  "nat \<Rightarrow> system \<Rightarrow> round \<Rightarrow> pollfd list \<Rightarrow> conn \<Rightarrow> env \<Rightarrow> (pollfd list \<times> conn \<times> env) res" where
  "clients depth sy ro table cn e =
     rbind (when_ready POLL_MNGM (accept_client sy) table cn e) (\<lambda>(table, cn, e).
     rbind (client_commands depth sy ro table cn e) (\<lambda>(cn, e).
       hang_ups table 1 cn e))"

definition thread_round ::
  "libm \<Rightarrow> nat \<Rightarrow> system \<Rightarrow> round \<Rightarrow> pollfd list \<Rightarrow> conn \<Rightarrow> env \<Rightarrow> (pollfd list \<times> conn \<times> env) res" where
  "thread_round m depth sy ro table cn e =
     (if ro_poll ro \<le> 0 then Inr (table, cn, e)
      else
        rbind (when_ready POLL_PIPE_LR (keep_table (left_packet m ro)) (poll_results (ro_revents ro) table) cn e)
          (\<lambda>(table, cn, e).
        rbind (ready table POLL_PIPE_RL POLLIN) (\<lambda>r.
        rbind (if r then right_packet m sy ro table cn e else Inr (True, table, cn, e))
          (\<lambda>(continue, table, cn, e).
          if continue then
            rbind (timers table cn e) (\<lambda>(table, cn, e). clients depth sy ro table cn e)
          else Inr (table, cn, e)))))"

end
