(* ===== verification/Transitions.thy ===== *)
theory Transitions
  imports Main
begin

text \<open>
  Transition systems: an invariant that every start state has and every step keeps holds in every
  reachable state; a measure that every step decreases, in a system that is only stuck when it is
  done, makes every run end in a done state, whatever the schedule.
\<close>

locale transitions =
  fixes start :: "'s \<Rightarrow> bool" and step :: "'s \<Rightarrow> 's \<Rightarrow> bool"
begin

inductive reachable :: "'s \<Rightarrow> bool" where
  reach_start: "start s \<Longrightarrow> reachable s"
| reach_step: "reachable s \<Longrightarrow> step s t \<Longrightarrow> reachable t"

lemma reachable_steps: "step\<^sup>*\<^sup>* s t \<Longrightarrow> reachable s \<Longrightarrow> reachable t"
  by (induction rule: rtranclp_induct) (auto intro: reach_step)

end

locale invariant_system = transitions start step
  for start :: "'s \<Rightarrow> bool" and step :: "'s \<Rightarrow> 's \<Rightarrow> bool" +
  fixes inv :: "'s \<Rightarrow> bool"
  assumes inv_start: "start s \<Longrightarrow> inv s"
    and inv_step: "inv s \<Longrightarrow> step s t \<Longrightarrow> inv t"
begin

lemma inv_reachable: "reachable s \<Longrightarrow> inv s"
  by (induction rule: reachable.induct) (auto intro: inv_start inv_step)

lemma inv_steps: "step\<^sup>*\<^sup>* s t \<Longrightarrow> inv s \<Longrightarrow> inv t"
  by (induction rule: rtranclp_induct) (auto intro: inv_step)

end

locale progress_system = invariant_system start step inv
  for start :: "'s \<Rightarrow> bool" and step :: "'s \<Rightarrow> 's \<Rightarrow> bool" and inv :: "'s \<Rightarrow> bool" +
  fixes finished :: "'s \<Rightarrow> bool" and left :: "'s \<Rightarrow> nat"
  assumes left_step: "inv s \<Longrightarrow> step s t \<Longrightarrow> left t < left s"
    and progress: "inv s \<Longrightarrow> \<not> finished s \<Longrightarrow> \<exists>t. step s t"
begin

lemma finishes: "inv s \<Longrightarrow> \<exists>t. step\<^sup>*\<^sup>* s t \<and> finished t"
proof (induction "left s" arbitrary: s rule: less_induct)
  case less
  show ?case
  proof (cases "finished s")
    case True
    then show ?thesis by blast
  next
    case False
    then obtain t where "step s t" using progress less.prems by blast
    then show ?thesis using less.hyps[of t] left_step inv_step less.prems
      by (meson converse_rtranclp_into_rtranclp)
  qed
qed

lemma stuck_finished: "inv s \<Longrightarrow> (\<And>t. \<not> step s t) \<Longrightarrow> finished s"
  using progress by blast

lemma run_bounded: "inv s \<Longrightarrow> (step ^^ k) s t \<Longrightarrow> k + left t \<le> left s"
proof (induction k arbitrary: t)
  case (Suc k)
  then obtain u where u: "(step ^^ k) s u" "step u t" by auto
  then have "inv u" using inv_steps Suc.prems(1) by (metis relpowp_imp_rtranclp)
  then show ?case using Suc.IH[OF Suc.prems(1) u(1)] left_step[OF _ u(2)] by fastforce
qed simp

end

end
