(* ===== verification/Pipe.thy ===== *)
theory Pipe
  imports Plugin Transitions
begin

text \<open>
  The way of a packet from the packet thread to the application: \<open>sendPacket\<close> takes \<open>receive_lock\<close>
  and writes the frame into the receive pipe; \<open>vde_wirefilter_recv\<close>, in a thread of the application,
  reads from the pipe and releases the lock. The steps of the two threads interleave freely. The
  pipe is a sequence of bytes without boundaries: it is the lock that keeps frames apart.
\<close>

section \<open>States and steps\<close>

text \<open>
  Frames the packet thread still has to send, the first of them without the bytes already written;
  whether it is inside \<open>write\<close>; the lock; the pipe; what the application has read before it releases
  the lock; whether its last \<open>read\<close> failed and the lock is still to be released; the frames it got;
  the frames whose write failed.
\<close>

record pipe =
  pi_todo :: "byte list list"
  pi_writing :: bool
  pi_locked :: bool
  pi_pipe :: "byte list"
  pi_read :: "byte list option"
  pi_failed :: bool
  pi_got :: "byte list list"
  pi_lost :: "byte list list"

text \<open>\<open>write\<close> puts up to \<open>PIPE_BUF\<close> bytes into a pipe at once; more may go in piece by piece.\<close>

definition PIPE_BUF :: nat where
  "PIPE_BUF = 4096"

text \<open>The packet thread; a failed write is only logged.\<close>

inductive writer_step :: "bool \<Rightarrow> pipe \<Rightarrow> pipe \<Rightarrow> bool" for write_fails where
  take_lock: "pi_todo s \<noteq> [] \<Longrightarrow> \<not> pi_writing s \<Longrightarrow> \<not> pi_locked s \<Longrightarrow>
    writer_step write_fails s (s\<lparr>pi_writing := True, pi_locked := True\<rparr>)"
| put_part: "pi_todo s = (f @ g) # fs \<Longrightarrow> pi_writing s \<Longrightarrow> PIPE_BUF < length (f @ g) \<Longrightarrow> f \<noteq> [] \<Longrightarrow> g \<noteq> [] \<Longrightarrow>
    writer_step write_fails s (s\<lparr>pi_todo := g # fs, pi_pipe := pi_pipe s @ f\<rparr>)"
| put_frame: "pi_todo s = f # fs \<Longrightarrow> pi_writing s \<Longrightarrow>
    writer_step write_fails s (s\<lparr>pi_todo := fs, pi_writing := False, pi_pipe := pi_pipe s @ f\<rparr>)"
| put_error: "write_fails \<Longrightarrow> pi_todo s = f # fs \<Longrightarrow> pi_writing s \<Longrightarrow>
    writer_step write_fails s (s\<lparr>pi_todo := fs, pi_writing := False, pi_lost := pi_lost s @ [f]\<rparr>)"

text \<open>
  The application; \<open>poll\<close> returns when the pipe is not empty. The lock is released after every
  \<open>read\<close>, also after one that failed and left the bytes in the pipe.
\<close>

inductive reader_step :: "bool \<Rightarrow> nat \<Rightarrow> pipe \<Rightarrow> pipe \<Rightarrow> bool" for read_fails bufsize where
  get_frame: "pi_pipe s \<noteq> [] \<Longrightarrow> pi_read s = None \<Longrightarrow> \<not> pi_failed s \<Longrightarrow>
    reader_step read_fails bufsize s
      (s\<lparr>pi_pipe := drop bufsize (pi_pipe s), pi_read := Some (take bufsize (pi_pipe s))\<rparr>)"
| free_lock: "pi_read s = Some data \<Longrightarrow>
    reader_step read_fails bufsize s (s\<lparr>pi_locked := False, pi_read := None, pi_got := pi_got s @ [data]\<rparr>)"
| get_error: "read_fails \<Longrightarrow> pi_pipe s \<noteq> [] \<Longrightarrow> pi_read s = None \<Longrightarrow> \<not> pi_failed s \<Longrightarrow>
    reader_step read_fails bufsize s (s\<lparr>pi_failed := True\<rparr>)"
| free_after_error: "pi_failed s \<Longrightarrow>
    reader_step read_fails bufsize s (s\<lparr>pi_locked := False, pi_failed := False\<rparr>)"

definition pipe_step :: "bool \<Rightarrow> bool \<Rightarrow> nat \<Rightarrow> pipe \<Rightarrow> pipe \<Rightarrow> bool" where
  "pipe_step write_fails read_fails bufsize s t \<longleftrightarrow>
     writer_step write_fails s t \<or> reader_step read_fails bufsize s t"

definition pipe_start :: "byte list list \<Rightarrow> pipe \<Rightarrow> bool" where
  "pipe_start frames s \<longleftrightarrow> s = \<lparr>pi_todo = frames, pi_writing = False, pi_locked = False, pi_pipe = [],
     pi_read = None, pi_failed = False, pi_got = [], pi_lost = []\<rparr>"


text \<open>
  The packet thread forwards frames of two bytes at least, and no longer than its own buffer. Frames
  that also go into the pipe at once:
\<close>

definition frames_fit :: "nat \<Rightarrow> byte list list \<Rightarrow> bool" where
  "frames_fit bufsize frames \<longleftrightarrow> (\<forall>f \<in> set frames. f \<noteq> [] \<and> length f \<le> bufsize \<and> length f \<le> PIPE_BUF)"

section \<open>The stream of bytes\<close>





section \<open>The invariant\<close>

fun flight :: "byte list option \<Rightarrow> byte list \<Rightarrow> byte list list" where
  "flight None [] = []"
| "flight None (b # bs) = [b # bs]"
| "flight (Some f) [] = [f]"
| "flight (Some f) (b # bs) = [f, b # bs]"


lemma flight_empty [simp]: "flight r p = [] \<longleftrightarrow> r = None \<and> p = []" "[] = flight r p \<longleftrightarrow> r = None \<and> p = []"
  by (cases "(r, p)" rule: flight.cases; simp)+












section \<open>Progress\<close>









section \<open>Two frames\<close>

definition two_frames :: "byte list list" where
  "two_frames = [[8, 0], [1, 2, 3]]"

definition two_frames_start :: pipe where
  "two_frames_start = \<lparr>pi_todo = two_frames, pi_writing = False, pi_locked = False, pi_pipe = [],
     pi_read = None, pi_failed = False, pi_got = [], pi_lost = []\<rparr>"

lemma two_frames: "frames_fit 9234 two_frames" "pipe_start two_frames two_frames_start"
  by (simp_all add: frames_fit_def two_frames_def pipe_start_def two_frames_start_def PIPE_BUF_def)

lemma two_frames_locked:
  "pipe_step w r 9234 two_frames_start (two_frames_start\<lparr>pi_writing := True, pi_locked := True\<rparr>)"
  unfolding pipe_step_def by (intro disjI1 writer_step.take_lock) (simp_all add: two_frames_start_def two_frames_def)

lemma two_frames_written:
  "(pipe_step w r 9234)\<^sup>*\<^sup>* two_frames_start
     (two_frames_start\<lparr>pi_todo := [[1, 2, 3]], pi_locked := True, pi_pipe := [8, 0]\<rparr>)" (is ?W)
  "(pipe_step True r 9234)\<^sup>*\<^sup>* two_frames_start
     (two_frames_start\<lparr>pi_todo := [[1, 2, 3]], pi_locked := True, pi_lost := [[8, 0]]\<rparr>)" (is ?L)
proof -
  let ?s = "two_frames_start\<lparr>pi_writing := True, pi_locked := True\<rparr>"
  have "pipe_step w r 9234 ?s (?s\<lparr>pi_todo := [[1, 2, 3]], pi_writing := False, pi_pipe := pi_pipe ?s @ [8, 0]\<rparr>)"
    unfolding pipe_step_def by (intro disjI1 writer_step.put_frame; simp add: two_frames_start_def two_frames_def)
  then show ?W using two_frames_locked[of w r] by (simp add: two_frames_start_def)
  have "pipe_step True r 9234 ?s (?s\<lparr>pi_todo := [[1, 2, 3]], pi_writing := False, pi_lost := pi_lost ?s @ [[8, 0]]\<rparr>)"
    unfolding pipe_step_def by (intro disjI1 writer_step.put_error; simp add: two_frames_start_def two_frames_def)
  then show ?L using two_frames_locked[of True r] by (simp add: two_frames_start_def)
qed

text \<open>After a failed read the lock is free although the frame is still in the pipe, and the next
  frame is written behind it: the application reads both as one.\<close>

lemma read_error_merges:
  "\<exists>t. (pipe_step False True 9234)\<^sup>*\<^sup>* two_frames_start t \<and> pi_got t = [[8, 0, 1, 2, 3]] \<and> pi_todo t = []"
proof -
  let ?R = "pipe_step False True 9234"
  define s1 where "s1 = two_frames_start\<lparr>pi_todo := [[1, 2, 3]], pi_locked := True, pi_pipe := [8, 0]\<rparr>"
  define s2 where "s2 = s1\<lparr>pi_failed := True\<rparr>"
  define s3 where "s3 = s2\<lparr>pi_locked := False, pi_failed := False\<rparr>"
  define s4 where "s4 = s3\<lparr>pi_writing := True, pi_locked := True\<rparr>"
  define s5 where "s5 = s4\<lparr>pi_todo := [], pi_writing := False, pi_pipe := pi_pipe s4 @ [1, 2, 3]\<rparr>"
  define s6 where "s6 = s5\<lparr>pi_pipe := drop 9234 (pi_pipe s5), pi_read := Some (take 9234 (pi_pipe s5))\<rparr>"
  define s7 where "s7 = s6\<lparr>pi_locked := False, pi_read := None, pi_got := pi_got s6 @ [take 9234 (pi_pipe s5)]\<rparr>"
  note defs = s1_def s2_def s3_def s4_def s5_def s6_def two_frames_start_def
  have "?R\<^sup>*\<^sup>* two_frames_start s1" unfolding s1_def by (rule two_frames_written(1))
  moreover have "?R s1 s2" unfolding pipe_step_def s2_def
    by (intro disjI2 reader_step.get_error) (simp_all add: defs)
  moreover have "?R s2 s3" unfolding pipe_step_def s3_def
    by (intro disjI2 reader_step.free_after_error) (simp add: defs)
  moreover have "?R s3 s4" unfolding pipe_step_def s4_def
    by (intro disjI1 writer_step.take_lock) (simp_all add: defs)
  moreover have "?R s4 s5" unfolding pipe_step_def s5_def
    by (intro disjI1 writer_step.put_frame) (simp_all add: defs)
  moreover have "?R s5 s6" unfolding pipe_step_def s6_def
    by (intro disjI2 reader_step.get_frame) (simp_all add: defs)
  moreover have "?R s6 s7" unfolding pipe_step_def s7_def
    by (intro disjI2 reader_step.free_lock) (simp add: defs)
  ultimately have "?R\<^sup>*\<^sup>* two_frames_start s7" by (meson rtranclp.rtrancl_into_rtrancl)
  then show ?thesis by (intro exI[of _ s7]) (simp add: s7_def defs)
qed

section \<open>Properties\<close>







end
