(* ===== verification/Clients_Props.thy ===== *)
theory Clients_Props
  imports Thread
begin

text \<open>
  The table of management clients as a list of descriptors with their debug levels: accepting a
  client appends to it, closing one removes it, no command changes who is in it, and the packet
  thread's poll slots stay in step with it.
\<close>

section \<open>The abstract table\<close>

definition table_ok :: "conn \<Rightarrow> bool" where
  "table_ok cn \<longleftrightarrow> (let mg = cn_management cn in
     length (mg_connections mg) = 3 \<and> length (mg_debug_level mg) = 3 \<and> 0 \<le> mg_count mg \<and> mg_count mg \<le> 3)"

definition clients_of :: "conn \<Rightarrow> (int \<times> int) list" where
  "clients_of cn = (let mg = cn_management cn in
     take (nat (mg_count mg)) (zip (mg_connections mg) (mg_debug_level mg)))"

lemma clients_length: "table_ok cn \<Longrightarrow> length (clients_of cn) = nat (mg_count (cn_management cn))"
  by (auto simp: table_ok_def clients_of_def Let_def min_def)

lemma clients_nth:
  "table_ok cn \<Longrightarrow> i < length (clients_of cn) \<Longrightarrow> clients_of cn ! i =
     (mg_connections (cn_management cn) ! i, mg_debug_level (cn_management cn) ! i)"
  by (simp add: table_ok_def clients_of_def Let_def)

lemma clients_fds:
  "table_ok cn \<Longrightarrow> map fst (clients_of cn) =
     take (nat (mg_count (cn_management cn))) (mg_connections (cn_management cn))"
  by (simp add: table_ok_def clients_of_def Let_def take_map flip: take_map)

lemma take_update_append: "n < length xs \<Longrightarrow> take (Suc n) (xs[n := x]) = take n xs @ [x]"
  by (simp add: take_Suc_conv_app_nth)

lemma add_client_ok:
  assumes "table_ok cn" "mg_count (cn_management cn) < 3"
  shows "\<exists>mg. add_client (cn_management cn) fd = Inr mg \<and> table_ok (cn\<lparr>cn_management := mg\<rparr>) \<and>
    clients_of (cn\<lparr>cn_management := mg\<rparr>) = clients_of cn @ [(fd, 0)]"
proof -
  let ?mg = "cn_management cn" and ?n = "nat (mg_count (cn_management cn))"
  have t: "length (mg_connections ?mg) = 3" "length (mg_debug_level ?mg) = 3" "0 \<le> mg_count ?mg" "?n < 3"
    using assms by (simp_all add: table_ok_def Let_def)
  have z: "zip ((mg_connections ?mg)[?n := fd]) ((mg_debug_level ?mg)[?n := 0]) =
      (zip (mg_connections ?mg) (mg_debug_level ?mg))[?n := (fd, 0)]"
    by (simp add: update_zip)
  have "add_client ?mg fd = Inr (?mg\<lparr>mg_connections := (mg_connections ?mg)[?n := fd],
      mg_debug_level := (mg_debug_level ?mg)[?n := 0], mg_count := mg_count ?mg + 1\<rparr>)"
    using t assms(2) by (simp add: add_client_def wr_def)
  moreover have "nat (mg_count ?mg + 1) = Suc ?n" using t(3) by simp
  ultimately show ?thesis
    using t assms(2) z by (simp add: table_ok_def clients_of_def Let_def take_update_append)
qed

section \<open>Closing\<close>

lemma find_client_ok:
  assumes "0 \<le> a" "a \<le> n" "n \<le> int (length cs)"
  shows "\<exists>k. find_client cs fd [a..n - 1] a = Inr k \<and> a \<le> k \<and> k \<le> n \<and>
    (\<forall>j. a \<le> j \<and> j < k \<longrightarrow> cs ! nat j \<noteq> fd) \<and> (k < n \<longrightarrow> cs ! nat k = fd)"
  using assms
proof (induction "nat (n - a)" arbitrary: a)
  case 0
  then show ?case by simp
next
  case (Suc m)
  then have an: "a < n" and up: "[a..n - 1] = a # [a + 1..n - 1]" by (simp_all add: upto_rec1)
  have m: "m = nat (n - (a + 1))" using Suc.hyps(2) by linarith
  have c: "rd cs a = Inr (cs ! nat a)" using an Suc.prems by (simp add: rd_def)
  show ?case
  proof (cases "cs ! nat a = fd")
    case True
    then show ?thesis using up c an by auto
  next
    case False
    obtain k where k: "find_client cs fd [a + 1..n - 1] (a + 1) = Inr k" "a + 1 \<le> k" "k \<le> n"
      "\<forall>j. a + 1 \<le> j \<and> j < k \<longrightarrow> cs ! nat j \<noteq> fd" "k < n \<longrightarrow> cs ! nat k = fd"
      using Suc.hyps(1)[OF m] Suc.prems an by auto
    have "\<forall>j. a \<le> j \<and> j < k \<longrightarrow> cs ! nat j \<noteq> fd" using k(4) False by (metis add1_zle_eq order_le_less)
    then show ?thesis using k up c False by auto
  qed
qed

text \<open>Removing cell \<open>k\<close> of the first \<open>n\<close>.\<close>

definition without :: "nat \<Rightarrow> 'a list \<Rightarrow> 'a list" where
  "without k xs = take k xs @ drop (Suc k) xs"

lemma without_zip: "length xs = length ys \<Longrightarrow> without k (zip xs ys) = zip (without k xs) (without k ys)"
  by (simp add: without_def take_zip drop_zip)

lemma without_map: "without k (map f xs) = map f (without k xs)"
  by (simp add: without_def take_map drop_map)

lemma shift_left_ok:
  assumes "0 \<le> k" "k < n" "n \<le> int (length xs)"
  shows "\<exists>ys. shift_left xs k (n - k - 1) = Inr ys \<and> length ys = length xs \<and>
    take (nat n - 1) ys = without (nat k) (take (nat n) xs) \<and> take (nat k) ys = take (nat k) xs \<and>
    drop (nat n - 1) ys = drop (nat n - 1) xs"
proof -
  define p q where "p = nat k" and "q = nat n"
  have m: "nat (n - k - 1) = q - p - 1" "p < q" "q \<le> length xs" "p + (q - p - 1) = q - 1" "nat (k + 1) = Suc p"
    using assms by (auto simp: p_def q_def)
  define A B C where "A = take p xs" and "B = take (q - p - 1) (drop (Suc p) xs)" and "C = drop (q - 1) xs"
  have len: "length A = p" "length (A @ B) = q - 1" "length C = length xs - (q - 1)"
    using m by (simp_all add: A_def B_def C_def)
  have "shift_left xs k (n - k - 1) = Inr (A @ B @ C)"
    using assms m by (simp add: shift_left_def A_def B_def C_def p_def flip: q_def)
  moreover have "take (q - 1) ((A @ B) @ C) = A @ B" "drop (q - 1) ((A @ B) @ C) = C" using len(2) by simp_all
  moreover have "B = drop (Suc p) (take q xs)" using m by (simp add: B_def drop_take)
  then have "A @ B = without p (take q xs)" using m by (simp add: A_def without_def min_absorb1)
  moreover have "length ((A @ B) @ C) = length xs" using len m by (simp only: length_append) simp
  moreover have "take p (A @ B @ C) = A" using len(1) by simp
  ultimately show ?thesis
    unfolding p_def[symmetric] q_def[symmetric] A_def[symmetric] C_def[symmetric] by (metis append_assoc)
qed

lemma close_ok:
  assumes "table_ok cn" "i < length (clients_of cn)" "fst (clients_of cn ! i) = fd"
    and "\<forall>j < i. fst (clients_of cn ! j) \<noteq> fd"
  shows "\<exists>cn'. closeManagementConnection cn fd e = Inr (0, cn', emit (CloseFd fd) e) \<and>
    mg_count (cn_management cn') = mg_count (cn_management cn) \<and>
    table_ok (cn'\<lparr>cn_management := (cn_management cn')\<lparr>mg_count := mg_count (cn_management cn') - 1\<rparr>\<rparr>) \<and>
    clients_of (cn'\<lparr>cn_management := (cn_management cn')\<lparr>mg_count := mg_count (cn_management cn') - 1\<rparr>\<rparr>)
      = without i (clients_of cn)"
proof -
  let ?mg = "cn_management cn"
  have t: "length (mg_connections ?mg) = 3" "length (mg_debug_level ?mg) = 3" "0 \<le> mg_count ?mg" "mg_count ?mg \<le> 3"
    using assms(1) by (simp_all add: table_ok_def Let_def)
  have i: "int i < mg_count ?mg" using assms(2) clients_length[OF assms(1)] by simp
  obtain k where k: "find_client (mg_connections ?mg) fd [0..mg_count ?mg - 1] 0 = Inr k" "0 \<le> k"
    "\<forall>j. 0 \<le> j \<and> j < k \<longrightarrow> mg_connections ?mg ! nat j \<noteq> fd" "k < mg_count ?mg \<longrightarrow> mg_connections ?mg ! nat k = fd"
    "k \<le> mg_count ?mg"
    using find_client_ok[of 0 "mg_count ?mg" "mg_connections ?mg" fd] t by auto
  have fd: "mg_connections ?mg ! i = fd" using assms(1-3) clients_nth by simp
  have nk: "\<not> int i < k" using k(3)[rule_format, of "int i"] fd by auto
  moreover have "\<not> k < int i"
  proof
    assume "k < int i"
    then have "nat k < i" "k < mg_count ?mg" using i k(2) by auto
    then show False using assms(1,2,4) clients_nth[of cn "nat k"] k(4) by (metis fst_conv less_trans)
  qed
  ultimately have ki: "k = int i" by simp
  obtain cs where cs: "shift_left (mg_connections ?mg) k (mg_count ?mg - k - 1) = Inr cs" "length cs = 3"
    "take (nat (mg_count ?mg) - 1) cs = without i (take (nat (mg_count ?mg)) (mg_connections ?mg))"
    using shift_left_ok[of k "mg_count ?mg" "mg_connections ?mg"] ki i t by auto
  obtain ds where ds: "shift_left (mg_debug_level ?mg) k (mg_count ?mg - k - 1) = Inr ds" "length ds = 3"
    "take (nat (mg_count ?mg) - 1) ds = without i (take (nat (mg_count ?mg)) (mg_debug_level ?mg))"
    using shift_left_ok[of k "mg_count ?mg" "mg_debug_level ?mg"] ki i t by auto
  have "rd (mg_connections ?mg) k = Inr fd" using ki i t fd by (simp add: rd_def)
  then have "closeManagementConnection cn fd e =
      Inr (0, cn\<lparr>cn_management := ?mg\<lparr>mg_connections := cs, mg_debug_level := ds\<rparr>\<rparr>, emit (CloseFd fd) e)"
    using k(1) cs(1) ds(1) by (simp add: closeManagementConnection_def)
  moreover have "nat (mg_count ?mg - 1) = nat (mg_count ?mg) - 1" by simp
  ultimately show ?thesis
    using cs ds t i by (simp add: table_ok_def clients_of_def Let_def take_zip without_zip)
qed

section \<open>The poll slots of the clients\<close>

definition slots_ok :: "pollfd list \<Rightarrow> conn \<Rightarrow> bool" where
  "slots_ok table cn \<longleftrightarrow> table_ok cn \<and> length table = 9 \<and>
     map pf_fd (drop 6 table) = map fst (clients_of cn) @ replicate (3 - length (clients_of cn)) (- 1)"

text \<open>Each client with its slot.\<close>

definition rows :: "pollfd list \<Rightarrow> conn \<Rightarrow> ((int \<times> int) \<times> pollfd) list" where
  "rows table cn = zip (clients_of cn) (drop 6 table)"

lemma count_clients: "table_ok cn \<Longrightarrow> mg_count (cn_management cn) = int (length (clients_of cn))"
  using clients_length[of cn] by (simp add: table_ok_def Let_def)

lemma at_most_three: "table_ok cn \<Longrightarrow> length (clients_of cn) \<le> 3"
  using clients_length[of cn] by (auto simp: table_ok_def Let_def nat_le_iff)

lemma slots_okD:
  assumes "slots_ok table cn"
  shows "table_ok cn" "length table = 9" "length (clients_of cn) \<le> 3"
  using assms at_most_three by (simp_all add: slots_ok_def)

lemma rows_clients: "slots_ok table cn \<Longrightarrow> map fst (rows table cn) = clients_of cn"
  using slots_okD[of table cn] by (simp add: rows_def map_fst_zip_take)

lemma rows_length: "slots_ok table cn \<Longrightarrow> length (rows table cn) = length (clients_of cn)"
  using rows_clients by (metis length_map)

lemma slot_fd:
  assumes "slots_ok table cn" "i < length (clients_of cn)"
  shows "pf_fd (table ! (6 + i)) = fst (clients_of cn ! i)" "rows table cn ! i = (clients_of cn ! i, table ! (6 + i))"
proof -
  have l: "length table = 9" "length (clients_of cn) \<le> 3" using slots_okD[OF assms(1)] by simp_all
  have "map pf_fd (drop 6 table) ! i = fst (clients_of cn ! i)"
    using assms by (simp add: slots_ok_def nth_append)
  then show "pf_fd (table ! (6 + i)) = fst (clients_of cn ! i)"
    "rows table cn ! i = (clients_of cn ! i, table ! (6 + i))"
    using l assms(2) by (simp_all add: rows_def)
qed

definition shrunk :: "conn \<Rightarrow> conn" where
  "shrunk cn = cn\<lparr>cn_management := (cn_management cn)\<lparr>mg_count := mg_count (cn_management cn) - 1\<rparr>\<rparr>"

lemma without_append: "k < length xs \<Longrightarrow> without k (xs @ ys) = without k xs @ ys"
  by (simp add: without_def)

lemma without_drop: "n \<le> k \<Longrightarrow> drop n (without k xs) = without (k - n) (drop n xs)"
  by (cases "n \<le> length xs") (simp_all add: without_def drop_take min_def)

lemma without_length: "k < length xs \<Longrightarrow> length (without k xs) = length xs - 1"
  by (simp add: without_def min_def)

lemma shifted_slots:
  assumes "length table = 9" "i < n" "n \<le> 3"
  shows "\<exists>ys. shift_left table (6 + int i) (int n - (int i + 1)) = Inr ys \<and> length ys = 9 \<and>
    drop 6 (ys[5 + n := x]) = without i (take n (drop 6 table)) @ x # drop n (drop 6 table)"
proof -
  have k: "nat (int (6 + i)) = 6 + i" "nat (int n + 6) - 1 = n + 5" "nat (int n + 6) = n + 6"
    using assms by simp_all
  obtain ys where ys: "shift_left table (int (6 + i)) ((int n + 6) - int (6 + i) - 1) = Inr ys" "length ys = length table"
    "take (n + 5) ys = without (6 + i) (take (n + 6) table)" "drop (n + 5) ys = drop (n + 5) table"
    using shift_left_ok[of "int (6 + i)" "int n + 6" table] assms unfolding k by (auto simp: add.commute)
  have "int (6 + i) = 6 + int i" "(int n + 6) - int (6 + i) - 1 = int n - (int i + 1)" by simp_all
  then have 1: "shift_left table (6 + int i) (int n - (int i + 1)) = Inr ys" using ys(1) by (simp only:)
  have 2: "take (n - 1) (drop 6 (ys[5 + n := x])) = without i (take n (drop 6 table))"
  proof -
    have "take (n - 1) (drop 6 (ys[5 + n := x])) = drop 6 (take (n + 5) ys)"
      using assms by (simp add: take_drop add.commute)
    also have "\<dots> = without i (drop 6 (take (n + 6) table))" using without_drop[of 6 "6 + i"] by (simp add: ys(3))
    finally show ?thesis by (simp add: drop_take)
  qed
  have n5: "n - 1 + 6 = n + 5" and n6: "n + 6 = Suc (n + 5)" using assms(2) by simp_all
  have "drop (n + 5) table = table ! (n + 5) # drop n (drop 6 table)"
    using assms Cons_nth_drop_Suc[of "n + 5" table] by (simp only: drop_drop n6)
  moreover have "drop (n + 5) (ys[5 + n := x]) = (drop (n + 5) ys)[0 := x]"
    by (simp add: drop_update_swap)
  then have "drop (n - 1) (drop 6 (ys[5 + n := x])) = (drop (n + 5) table)[0 := x]"
    by (simp only: drop_drop n5 ys(4))
  ultimately have "drop (n - 1) (drop 6 (ys[5 + n := x])) = x # drop n (drop 6 table)"
    by (simp only: list_update_code)
  moreover have "drop 6 (ys[5 + n := x]) =
      take (n - 1) (drop 6 (ys[5 + n := x])) @ drop (n - 1) (drop 6 (ys[5 + n := x]))"
    by (rule append_take_drop_id[symmetric])
  ultimately have 3: "drop 6 (ys[5 + n := x]) = without i (take n (drop 6 table)) @ x # drop n (drop 6 table)"
    using 2 by argo
  have "length ys = 9" using ys(2) assms(1) by simp
  then show ?thesis using 1 3 by (intro exI[of _ ys] conjI)
qed

lemma zip_takes: "zip xs (take (length xs) ys) = zip xs ys"
  by (metis take_zip take_all length_zip min.cobounded1 order_refl)

lemma drop_client_ok:
  assumes s: "slots_ok table cn" and i: "i < length (clients_of cn)"
    and d: "distinct (map fst (clients_of cn))"
  shows "\<exists>table' cn'. drop_client table (int i + 1) cn e = Inr (table', cn', emit (CloseFd (fst (clients_of cn ! i))) e) \<and>
    slots_ok table' cn' \<and> clients_of cn' = without i (clients_of cn) \<and> rows table' cn' = without i (rows table cn)"
proof -
  let ?c = "clients_of cn" and ?n = "length (clients_of cn)"
  note t = slots_okD(1,2)[OF s] and n3 = slots_okD(3)[OF s]
  have cnt: "mg_count (cn_management cn) = int ?n" using count_clients[OF t(1)] .
  have "\<forall>j < i. fst (?c ! j) \<noteq> fst (?c ! i)"
    using d i by (auto simp: distinct_conv_nth)
  from close_ok[OF t(1) i refl this, of e] obtain cn1 where
    c1: "closeManagementConnection cn (fst (?c ! i)) e = Inr (0, cn1, emit (CloseFd (fst (?c ! i))) e)"
    "mg_count (cn_management cn1) = int ?n" "table_ok (shrunk cn1)" "clients_of (shrunk cn1) = without i ?c"
    using cnt by (auto simp: shrunk_def)
  obtain ys0 where ys0: "shift_left table (6 + int i) (int ?n - (int i + 1)) = Inr ys0" "length ys0 = 9"
    using shifted_slots[OF t(2) i n3] by blast
  define x where "x = (ys0 ! (5 + ?n))\<lparr>pf_fd := - 1\<rparr>"
  define t' where "t' = ys0[5 + ?n := x]"
  have t': "drop 6 t' = without i (take ?n (drop 6 table)) @ x # drop ?n (drop 6 table)" "length t' = 9"
    using shifted_slots[OF t(2) i n3, of x] ys0 by (simp_all add: t'_def)
  have at: "rd table (6 + int i) = Inr (table ! (6 + i))" "rd ys0 (5 + int ?n) = Inr (ys0 ! (5 + ?n))"
    "wr ys0 (5 + int ?n) x = Inr t'"
    using i n3 t(2) ys0(2) by (simp_all add: rd_def wr_def nat_add_distrib t'_def)
  have "drop_client table (int i + 1) cn e = Inr (t', shrunk cn1, emit (CloseFd (fst (?c ! i))) e)"
    using at c1(1,2) ys0(1) slot_fd(1)[OF s i]
    by (simp add: drop_client_def POLL_MNGM_def shrunk_def x_def[symmetric] Let_def)
  moreover have wl: "length (clients_of (shrunk cn1)) = ?n - 1" using c1(4) i without_length by simp
  have fds: "map pf_fd (take ?n (drop 6 table)) = map fst ?c" "map pf_fd (drop ?n (drop 6 table)) = replicate (3 - ?n) (- 1)"
    using s by (simp_all only: slots_ok_def take_map[symmetric] drop_map[symmetric]) simp_all
  have "3 - (?n - 1) = Suc (3 - ?n)" using i n3 by simp
  then have "map pf_fd (drop 6 t') = without i (map fst ?c) @ replicate (3 - (?n - 1)) (- 1)"
    by (simp add: t'(1) without_map[symmetric] fds x_def del: drop_drop)
  then have "slots_ok t' (shrunk cn1)"
    using c1(3,4) wl t'(2) by (simp add: slots_ok_def without_map)
  moreover have "rows t' (shrunk cn1) = without i (rows table cn)"
  proof -
    have "length (without i ?c) = length (without i (take ?n (drop 6 table)))"
      using i n3 t(2) by (simp add: without_length)
    then have "rows t' (shrunk cn1) = zip (without i ?c) (without i (take ?n (drop 6 table)))"
      by (simp add: rows_def c1(4) t'(1) zip_append2)
    also have "\<dots> = without i (zip ?c (take ?n (drop 6 table)))"
      using t(2) n3 by (subst without_zip) simp_all
    also have "zip ?c (take ?n (drop 6 table)) = rows table cn"
      using t(2) n3 by (simp add: rows_def zip_takes)
    finally show ?thesis .
  qed
  ultimately show ?thesis using c1(4) by blast
qed

section \<open>Hang-ups\<close>

definition hung :: "('a \<times> pollfd) \<Rightarrow> bool" where
  "hung r \<longleftrightarrow> pf_revents (snd r) AND POLLHUP \<noteq> 0"

definition close_all :: "int list \<Rightarrow> env \<Rightarrow> env" where
  "close_all fds e = fold (\<lambda>fd. emit (CloseFd fd)) fds e"

lemma without_at: "i < length xs \<Longrightarrow> take i xs @ f (drop (Suc i) xs) = take i (without i xs) @ f (drop i (without i xs))"
  by (simp add: without_def)

lemma distinct_without: "distinct xs \<Longrightarrow> distinct (without i xs)"
  using distinct_append[of "take i xs" "drop (Suc i) xs"] set_take_disj_set_drop_if_distinct[of xs i "Suc i"]
  by (simp add: without_def)

text \<open>Exactly the clients that hung up are closed, in the order of the table.\<close>

lemma hang_ups_ok:
  assumes "slots_ok table cn" "i \<le> length (clients_of cn)" "distinct (map fst (clients_of cn))"
  shows "\<exists>table' cn'. hang_ups table (int i + 1) cn e =
      Inr (table', cn', close_all (map (fst \<circ> fst) (filter hung (drop i (rows table cn)))) e) \<and>
    slots_ok table' cn' \<and>
    rows table' cn' = take i (rows table cn) @ filter (\<lambda>r. \<not> hung r) (drop i (rows table cn))"
  using assms
proof (induction "length (clients_of cn) - i" arbitrary: table i cn e)
  case 0
  then have "\<not> int i + 1 \<le> mg_count (cn_management cn)" "length (rows table cn) = i"
    using count_clients[of cn] slots_okD(1) rows_length by auto
  then show ?case using 0 by (simp add: hang_ups.simps close_all_def)
next
  case (Suc m)
  let ?n = "length (clients_of cn)"
  have i: "i < ?n" using Suc.hyps(2) by linarith
  note t = slots_okD[OF Suc.prems(1)]
  have cnt: "int i + 1 \<le> mg_count (cn_management cn)" using count_clients[OF t(1)] i by simp
  have rd: "ready table (POLL_MNGM + (int i + 1)) POLLHUP = Inr (hung (rows table cn ! i))"
    using t(2,3) i slot_fd(2)[OF Suc.prems(1) i]
    by (simp add: ready_def POLL_MNGM_def rd_def hung_def nat_add_distrib add.commute)
  have ri: "i < length (rows table cn)" using i rows_length[OF Suc.prems(1)] by simp
  then have dr: "drop i (rows table cn) = rows table cn ! i # drop (Suc i) (rows table cn)"
    by (rule Cons_nth_drop_Suc[symmetric])
  have fst_row: "fst (fst (rows table cn ! i)) = fst (clients_of cn ! i)"
    using slot_fd(2)[OF Suc.prems(1) i] by simp
  show ?case
  proof (cases "hung (rows table cn ! i)")
    case False
    have "m = ?n - Suc i" using Suc.hyps(2) by linarith
    from Suc.hyps(1)[OF this Suc.prems(1) _ Suc.prems(3), of e] i obtain table' cn' where
      "hang_ups table (int (Suc i) + 1) cn e =
        Inr (table', cn', close_all (map (fst \<circ> fst) (filter hung (drop (Suc i) (rows table cn)))) e)"
      "slots_ok table' cn'"
      "rows table' cn' = take (Suc i) (rows table cn) @ filter (\<lambda>r. \<not> hung r) (drop (Suc i) (rows table cn))"
      by auto
    moreover have "hang_ups table (int i + 1) cn e = hang_ups table (int (Suc i) + 1) cn e"
      using cnt rd False by (subst hang_ups.simps) (simp add: add.commute)
    ultimately show ?thesis using False dr ri by (simp add: take_Suc_conv_app_nth)
  next
    case True
    obtain t1 cn1 where d: "drop_client table (int i + 1) cn e = Inr (t1, cn1, emit (CloseFd (fst (clients_of cn ! i))) e)"
      "slots_ok t1 cn1" "clients_of cn1 = without i (clients_of cn)" "rows t1 cn1 = without i (rows table cn)"
      using drop_client_ok[OF Suc.prems(1) i Suc.prems(3)] by blast
    have n1: "length (clients_of cn1) = ?n - 1" using d(3) i without_length by simp
    have "m = length (clients_of cn1) - i" "i \<le> length (clients_of cn1)" using n1 Suc.hyps(2) i by linarith+
    moreover have "distinct (map fst (clients_of cn1))"
      using distinct_without[OF Suc.prems(3)] d(3) by (simp add: without_map)
    ultimately obtain table' cn' where
      h: "hang_ups t1 (int i + 1) cn1 (emit (CloseFd (fst (clients_of cn ! i))) e) =
        Inr (table', cn', close_all (map (fst \<circ> fst) (filter hung (drop i (rows t1 cn1))))
          (emit (CloseFd (fst (clients_of cn ! i))) e))"
      "slots_ok table' cn'"
      "rows table' cn' = take i (rows t1 cn1) @ filter (\<lambda>r. \<not> hung r) (drop i (rows t1 cn1))"
      using Suc.hyps(1)[of cn1 i t1] d(2) by blast
    have "hang_ups table (int i + 1) cn e = hang_ups t1 (int i + 1) cn1 (emit (CloseFd (fst (clients_of cn ! i))) e)"
      using cnt rd True d(1) by (subst hang_ups.simps) simp
    moreover have "take i (rows t1 cn1) = take i (rows table cn)" "drop i (rows t1 cn1) = drop (Suc i) (rows table cn)"
      using d(4) ri by (simp_all add: without_def)
    ultimately show ?thesis
      using h True dr fst_row by (simp add: close_all_def)
  qed
qed

section \<open>Commands\<close>

text \<open>A command may change debug levels, nothing else of the table.\<close>

definition same_clients :: "conn \<Rightarrow> conn \<Rightarrow> bool" where
  "same_clients cn cn' \<longleftrightarrow> (let mg = cn_management cn; mg' = cn_management cn' in
     mg_connections mg' = mg_connections mg \<and> mg_count mg' = mg_count mg \<and>
     length (mg_debug_level mg') = length (mg_debug_level mg))"

lemma same_clients_refl [simp]: "same_clients cn cn"
  by (simp add: same_clients_def Let_def)

lemma same_clients_trans: "same_clients a b \<Longrightarrow> same_clients b c \<Longrightarrow> same_clients a c"
  by (simp add: same_clients_def Let_def)

lemma same_management: "cn_management cn' = cn_management cn \<Longrightarrow> same_clients cn cn'"
  by (simp add: same_clients_def)

lemma set_debug_clients:
  "set_debug fd level js mg = Inr (r, mg') \<Longrightarrow> mg_connections mg' = mg_connections mg \<and>
     mg_count mg' = mg_count mg \<and> length (mg_debug_level mg') = length (mg_debug_level mg)"
  by (induction js) (auto simp: rbind_eq_Inr wr_length split: if_splits)

lemma run_command_clients:
  assumes "run_command load c cn fd before arg e = Inr (r, cn', e')"
    and "\<And>r cn' e'. load cn fd arg e = Inr (r, cn', e') \<Longrightarrow> same_clients cn cn'"
  shows "same_clients cn cn'"
proof (cases "c = SetDebugLevel \<or> c = Load")
  case True
  then show ?thesis
    using assms
    by (auto simp: markovSetDebugLevel_def rbind_eq_Inr same_clients_def Let_def dest!: set_debug_clients split: if_splits)
next
  case False
  then have "cn_management cn' = cn_management cn"
    using assms(1)
    by (cases c)
      (auto simp: help_command_def showInfo_def set_wire_def setLoss_def setBurstyLoss_def setDelay_def setDuplicates_def
        setBandwidth_def setSpeed_def setNoise_def setMTU_def setChanbufsize_def setFIFO_def wfShutdown_def logout_def
        markovSetNodeNumber_def markovSetCurrentNode_def markovSetNodeName_def markovSetTime_def markovSetEdge_def
        markovShowEdges_def markovShowCurrent_def restore_blank_def rbind_eq_Inr Let_def split: if_splits)
  then show ?thesis by (rule same_management)
qed

lemma execute_clients:
  assumes "execute_with load sy cn fd cmd e = Inr (r, cn', e')"
    and "\<And>cn arg e r cn' e'. load cn fd arg e = Inr (r, cn', e') \<Longrightarrow> same_clients cn cn'"
  shows "same_clients cn cn'"
proof -
  have inv: "same_clients cn cn'" if "invoke load b c cn fd e0 = Inr (r, cn', e')" for b c e0 r e'
    using that assms(2) by (auto simp: invoke_def Let_def rbind_eq_Inr split: if_splits dest!: run_command_clients)
  show ?thesis
    using assms(1) inv by (auto simp: execute_with_def Let_def rbind_eq_Inr split: if_splits)
qed

lemma each_keeps:
  "each f xs s = Inr s' \<Longrightarrow> (\<And>x s s'. f x s = Inr s' \<Longrightarrow> R s s') \<Longrightarrow> (\<And>s. R s s) \<Longrightarrow>
     (\<And>a b c. R a b \<Longrightarrow> R b c \<Longrightarrow> R a c) \<Longrightarrow> R s s'"
proof (induction xs arbitrary: s)
  case (Cons x xs)
  then obtain s1 where "f x s = Inr s1" "each f xs s1 = Inr s'" by (auto simp: rbind_eq_Inr)
  then show ?case using Cons by metis
qed simp

lemma loadConfig_clients: "loadConfig depth sy cn fd rc e = Inr (r, cn', e') \<Longrightarrow> same_clients cn cn'"
proof (induction depth arbitrary: cn rc e r cn' e')
  case (Suc depth)
  show ?case
  proof (cases "sy_files sy rc")
    case None
    then show ?thesis using Suc.prems by simp
  next
    case (Some content)
    let ?body = "\<lambda>line (cn, e). let buf = before_nul line;
        e = (if 0 \<le> fd then put_mgmt fd (prompt @ '' ('' @ rc @ '') '' @ buf) e else e)
        in rbind (execute_with (loadConfig depth sy) sy cn fd buf e) (\<lambda>(ret, cn, e). Inr (cn, e))"
    have "\<exists>e1. each ?body (fgets_all content) (cn, e) = Inr (cn', e1)"
      using Suc.prems Some by (auto simp: rbind_eq_Inr)
    then obtain e1 where "each ?body (fgets_all content) (cn, e) = Inr (cn', e1)" by blast
    then have "same_clients (fst (cn, e)) (fst (cn', e1))"
    proof (rule each_keeps[where R = "\<lambda>s t. same_clients (fst s) (fst t)"])
      fix x :: string and s s' :: "conn \<times> env"
      assume "?body x s = Inr s'"
      then show "same_clients (fst s) (fst s')"
        using Suc.IH by (cases s) (auto simp: Let_def rbind_eq_Inr elim!: execute_clients)
    qed (auto intro: same_clients_trans)
    then show ?thesis by simp
  qed
qed simp

lemma executeCommand_clients: "executeCommand depth sy cn fd cmd e = Inr (r, cn', e') \<Longrightarrow> same_clients cn cn'"
  unfolding executeCommand_def by (erule execute_clients) (rule loadConfig_clients)

lemma handleManagementCommand_clients:
  "handleManagementCommand depth sy cn fd input e = Inr (r, cn', e') \<Longrightarrow> same_clients cn cn'"
  by (auto simp: handleManagementCommand_def rbind_eq_Inr syscall_def Let_def split: option.splits if_splits
      dest: executeCommand_clients)

end
