(* ===== verification/Clients_Spec.thy ===== *)
theory Clients_Spec
  imports Clients_Props
begin

text \<open>
  The contract of the management clients: who is accepted, who is closed, and that the table of
  clients and the poll slots of the packet thread always describe the same clients.
\<close>

section \<open>A concrete table\<close>

definition two_clients :: conn where
  "two_clients = zero_conn\<lparr>cn_management := \<lparr>mg_socket_fd = 6, mg_mode = 448, mg_count = 2,
     mg_connections = [7, 8, 0], mg_debug_level = [0, 2, 0], mg_socket_name = ''/tmp/wf''\<rparr>\<rparr>"

definition client_slot :: "int \<Rightarrow> flags16 \<Rightarrow> pollfd" where
  "client_slot fd revents = \<lparr>pf_fd = fd, pf_events = POLLIN OR POLLHUP, pf_revents = revents\<rparr>"

definition hup_table :: "pollfd list" where
  "hup_table = replicate 6 (polled 3) @ [client_slot 7 POLLHUP, client_slot 8 0, unused]"

lemma two_clients:
  "table_ok two_clients" "clients_of two_clients = [(7, 0), (8, 2)]" "slots_ok hup_table two_clients"
  "distinct (map fst (clients_of two_clients))"
  "rows hup_table two_clients = [((7, 0), client_slot 7 POLLHUP), ((8, 2), client_slot 8 0)]"
  by (simp_all add: slots_ok_def table_ok_def clients_of_def two_clients_def zero_conn_def hup_table_def
      client_slot_def rows_def unused_def eval_nat_numeral Let_def)

text \<open>A round in which the clients say nothing.\<close>

definition silent_round :: round where
  "silent_round = \<lparr>ro_poll = 1, ro_revents = [], ro_sent = None, ro_received = None, ro_input = (\<lambda>_. None)\<rparr>"

section \<open>Properties\<close>

text \<open>C32: a client that connects is greeted and put at the end of the table with debugging off, as long
  as there are fewer than three; the fourth is closed and the table stays as it is.\<close>

theorem accept_outcome:
  assumes "table_ok cn" "0 \<le> e_ret e (e_calls e)" "0 \<le> e_ret e (Suc (e_calls e))" "0 \<le> e_ret e (Suc (Suc (e_calls e)))"
  shows "let fd = e_ret e (e_calls e); full = \<not> length (clients_of cn) < 3 in
    \<exists>cn' e'. acceptManagementConnection sy cn e = Inr (if full then - 1 else fd, cn', e') \<and> table_ok cn' \<and>
      clients_of cn' = clients_of cn @ (if full then [] else [(fd, 0)]) \<and>
      e_trace e' = e_trace e @ (if full then [CloseFd fd] else [MgmtWrite fd (header sy), MgmtWrite fd prompt])"
proof (cases "length (clients_of cn) < 3")
  case True
  then have c: "mg_count (cn_management cn) < 3" using count_clients[OF assms(1)] by simp
  obtain mg where "add_client (cn_management cn) (e_ret e (e_calls e)) = Inr mg"
    "table_ok (cn\<lparr>cn_management := mg\<rparr>)"
    "clients_of (cn\<lparr>cn_management := mg\<rparr>) = clients_of cn @ [(e_ret e (e_calls e), 0)]"
    using add_client_ok[OF assms(1) c] by blast
  then show ?thesis
    using assms(2-4) c True
    by (simp add: acceptManagementConnection_def syscall_def Let_def MNGM_MAX_CONN_def emit_def)
next
  case False
  then have "\<not> mg_count (cn_management cn) < 3" using count_clients[OF assms(1)] by simp
  then show ?thesis
    using assms(1,2) False
    by (simp add: acceptManagementConnection_def syscall_def Let_def MNGM_MAX_CONN_def)
qed

theorem accept_outcome_witness:
  "\<exists>cn' e'. acceptManagementConnection small_system two_clients (idle_env\<lparr>e_ret := \<lambda>_. 9\<rparr>) = Inr (9, cn', e') \<and>
     clients_of cn' = [(7, 0), (8, 2), (9, 0)]"
  using accept_outcome[OF two_clients(1), of "idle_env\<lparr>e_ret := \<lambda>_. 9\<rparr>" small_system]
  by (auto simp: two_clients(2) Let_def)

text \<open>C10: the pass over the hang-ups closes exactly the clients whose slot reports one and keeps the
  others in order, each with its debug level and its slot.\<close>

theorem hang_ups_filter:
  assumes "slots_ok table cn" "distinct (map fst (clients_of cn))"
  shows "\<exists>table' cn'. hang_ups table 1 cn e =
      Inr (table', cn', close_all (map (fst \<circ> fst) (filter hung (rows table cn))) e) \<and>
    slots_ok table' cn' \<and> rows table' cn' = filter (\<lambda>r. \<not> hung r) (rows table cn)"
  using hang_ups_ok[OF assms(1) le0 assms(2), of e] by simp

theorem hang_ups_filter_witness:
  "\<exists>table' cn'. hang_ups hup_table 1 two_clients idle_env = Inr (table', cn', emit (CloseFd 7) idle_env) \<and>
     clients_of cn' = [(8, 2)]"
proof -
  obtain table' cn' where h: "hang_ups hup_table 1 two_clients idle_env =
      Inr (table', cn', close_all (map (fst \<circ> fst) (filter hung (rows hup_table two_clients))) idle_env)"
    "slots_ok table' cn'" "rows table' cn' = filter (\<lambda>r. \<not> hung r) (rows hup_table two_clients)"
    using hang_ups_filter[OF two_clients(3,4), of idle_env] by blast
  have "filter hung (rows hup_table two_clients) = [((7, 0), client_slot 7 POLLHUP)]"
    "filter (\<lambda>r. \<not> hung r) (rows hup_table two_clients) = [((8, 2), client_slot 8 0)]"
    by (simp_all add: two_clients(5) hung_def client_slot_def POLLHUP_def)
  then show ?thesis using h rows_clients[OF h(2)] by (simp add: close_all_def)
qed

lemma ready_bool: "ready table i bits = Inr r \<Longrightarrow> r \<longleftrightarrow> pf_revents (table ! nat i) AND bits \<noteq> 0"
  by (auto simp: ready_def rbind_eq_Inr rd_eq_Inr)

lemma same_clients_slots:
  assumes "same_clients cn cn'" "slots_ok table cn"
  shows "slots_ok table cn' \<and> map fst (clients_of cn') = map fst (clients_of cn)"
proof -
  note t = slots_okD(1)[OF assms(2)]
  have t': "table_ok cn'" using assms(1) t by (simp add: same_clients_def table_ok_def Let_def)
  have "map fst (clients_of cn') = map fst (clients_of cn)"
    using assms(1) by (simp add: clients_fds[OF t] clients_fds[OF t'] same_clients_def Let_def)
  moreover from this have "length (clients_of cn') = length (clients_of cn)" by (metis length_map)
  ultimately show ?thesis using assms(2) t' by (simp add: slots_ok_def)
qed

lemma accept_client_slots:
  assumes "accept_client sy table cn e = Inr (table', cn', e')" "slots_ok table cn"
    and "distinct (map fst (clients_of cn))"
    and "e_ret e (e_calls e) \<noteq> 0" "e_ret e (e_calls e) \<notin> fst ` set (clients_of cn)"
  shows "slots_ok table' cn' \<and> distinct (map fst (clients_of cn'))"
proof -
  let ?fd = "e_ret e (e_calls e)" and ?n = "length (clients_of cn)"
  note t = slots_okD[OF assms(2)]
  obtain r cn1 e1 where a: "acceptManagementConnection sy cn e = Inr (r, cn1, e1)"
    using assms(1) by (auto simp: accept_client_def rbind_eq_Inr)
  consider "r = - 1" "cn1 = cn" | "r = ?fd" "0 < ?fd" "?n < 3" "clients_of cn1 = clients_of cn @ [(?fd, 0)]" "table_ok cn1"
  proof (cases "r = - 1")
    case True
    then have "cn1 = cn"
      using a by (auto simp: acceptManagementConnection_def syscall_def Let_def rbind_eq_Inr split: if_splits)
    then show ?thesis using that True by blast
  next
    case False
    then have "0 \<le> ?fd" "mg_count (cn_management cn) < 3" "r = ?fd"
      "\<exists>mg. add_client (cn_management cn) ?fd = Inr mg \<and> cn1 = cn\<lparr>cn_management := mg\<rparr>"
      using a by (auto simp: acceptManagementConnection_def syscall_def Let_def rbind_eq_Inr MNGM_MAX_CONN_def split: if_splits)
    then show ?thesis
      using that(2) add_client_ok[OF t(1), of ?fd] count_clients[OF t(1)] assms(4) by auto
  qed
  then show ?thesis
  proof cases
    case 1
    then have "table' = table" "cn' = cn" using assms(1) a by (auto simp: accept_client_def)
    then show ?thesis using assms(2,3) by simp
  next
    case 2
    have n1: "mg_count (cn_management cn1) = int ?n + 1" using count_clients[OF 2(5)] 2(4) by simp
    have c: "cn' = cn1" "table' = table[6 + ?n := (table ! (6 + ?n))\<lparr>pf_fd := ?fd, pf_events := POLLIN OR POLLHUP\<rparr>]"
      using assms(1) a 2(1,2,3) n1 t(2)
      by (auto simp: accept_client_def Let_def rbind_eq_Inr rd_eq_Inr wr_eq_Inr POLL_MNGM_def nat_add_distrib)
    have "map pf_fd (drop 6 table') = (map pf_fd (drop 6 table))[?n := ?fd]"
      using t(2) 2(3) by (simp add: c(2) drop_update_swap map_update)
    also have "\<dots> = (map fst (clients_of cn) @ replicate (3 - ?n) (- 1))[?n := ?fd]"
      using assms(2) by (simp add: slots_ok_def)
    also have "replicate (3 - ?n) (- 1 :: int) = - 1 # replicate (3 - Suc ?n) (- 1)"
      using 2(3) by (simp add: Suc_diff_Suc flip: replicate_Suc)
    finally have "map pf_fd (drop 6 table') = map fst (clients_of cn') @ replicate (3 - length (clients_of cn')) (- 1)"
      using 2(4) by (simp add: list_update_append c(1))
    then show ?thesis
      using 2 c t(2) assms(3,5) by (simp add: slots_ok_def)
  qed
qed

text \<open>C9: a pass of the packet thread over its clients - the new one, the commands, the hang-ups - keeps
  the table of clients and the poll slots in step, and no client that hung up is left. The
  descriptor \<open>accept\<close> returns is assumed to be neither 0 nor one still in use.\<close>

theorem clients_in_step:
  assumes "clients depth sy ro table cn e = Inr (table', cn', e')" "slots_ok table cn"
    and "distinct (map fst (clients_of cn))"
    and "e_ret e (e_calls e) \<noteq> 0" "e_ret e (e_calls e) \<notin> fst ` set (clients_of cn)"
  shows "slots_ok table' cn' \<and> distinct (map fst (clients_of cn')) \<and> (\<forall>r \<in> set (rows table' cn'). \<not> hung r)"
proof -
  obtain t1 cn1 e1 where a: "when_ready POLL_MNGM (accept_client sy) table cn e = Inr (t1, cn1, e1)"
    using assms(1) by (auto simp: clients_def rbind_eq_Inr)
  obtain cn2 e2 where c: "client_commands depth sy ro t1 cn1 e1 = Inr (cn2, e2)"
    "hang_ups t1 1 cn2 e2 = Inr (table', cn', e')"
    using assms(1) a by (auto simp: clients_def rbind_eq_Inr)
  have 1: "slots_ok t1 cn1 \<and> distinct (map fst (clients_of cn1))"
    using a assms(2-5) accept_client_slots[OF _ assms(2-5)]
    by (auto simp: when_ready_def rbind_eq_Inr split: if_splits)
  have "same_clients (fst (cn1, e1)) (fst (cn2, e2))"
    using c(1) unfolding client_commands_def
    by (rule each_keeps[where R = "\<lambda>s t. same_clients (fst s) (fst t)"])
      (auto simp: client_command_def rbind_eq_Inr split: if_splits
        dest: handleManagementCommand_clients intro: same_clients_trans)
  then have "same_clients cn1 cn2" by simp
  then have 2: "slots_ok t1 cn2" "distinct (map fst (clients_of cn2))"
    using same_clients_slots[of cn1 cn2 t1] 1 by simp_all
  from hang_ups_ok[OF 2(1) le0 2(2), of e2] c(2)
  have h: "slots_ok table' cn'" "rows table' cn' = filter (\<lambda>r. \<not> hung r) (rows t1 cn2)" by auto
  have "distinct (map (fst \<circ> fst) (rows t1 cn2))"
    using 2(2) rows_clients[OF 2(1)] by (simp flip: map_map)
  then have "distinct (map (fst \<circ> fst) (rows table' cn'))" unfolding h(2) by (rule distinct_map_filter)
  then have "distinct (map fst (clients_of cn'))" using rows_clients[OF h(1)] by (simp flip: map_map)
  then show ?thesis using h by simp
qed

theorem clients_in_step_witness:
  "\<exists>table' cn' e'. clients 0 small_system silent_round hup_table two_clients (idle_env\<lparr>e_ret := \<lambda>_. 9\<rparr>) = Inr (table', cn', e') \<and>
     clients_of cn' = [(8, 2)] \<and> slots_ok table' cn'"
proof -
  let ?e = "idle_env\<lparr>e_ret := \<lambda>_. 9\<rparr>"
  obtain table' cn' where h: "hang_ups hup_table 1 two_clients ?e =
      Inr (table', cn', close_all (map (fst \<circ> fst) (filter hung (rows hup_table two_clients))) ?e)"
    "slots_ok table' cn'" "rows table' cn' = filter (\<lambda>r. \<not> hung r) (rows hup_table two_clients)"
    using hang_ups_ok[OF two_clients(3) le0 two_clients(4), of ?e] by auto
  have "when_ready POLL_MNGM (accept_client small_system) hup_table two_clients ?e = Inr (hup_table, two_clients, ?e)"
    by (simp add: when_ready_def ready_def rd_def hup_table_def POLL_MNGM_def polled_def nth_append)
  moreover have "mg_count (cn_management two_clients) = 2" by (simp add: two_clients_def)
  then have "client_commands 0 small_system silent_round hup_table two_clients ?e = Inr (two_clients, ?e)"
    by (simp add: client_commands_def client_command_def upto_rec1 rd_def hup_table_def POLL_MNGM_def client_slot_def
        POLLHUP_def POLLIN_def eval_nat_numeral)
  ultimately have c: "clients 0 small_system silent_round hup_table two_clients ?e =
      Inr (table', cn', close_all (map (fst \<circ> fst) (filter hung (rows hup_table two_clients))) ?e)"
    using h(1) by (simp add: clients_def)
  have "slots_ok table' cn'"
    using clients_in_step[OF c two_clients(3,4)] by (auto simp: two_clients(2))
  moreover have "filter (\<lambda>r. \<not> hung r) (rows hup_table two_clients) = [((8, 2), client_slot 8 0)]"
    by (simp add: two_clients(5) hung_def client_slot_def POLLHUP_def)
  then have "clients_of cn' = [(8, 2)]" using h(3) rows_clients[OF h(2)] by simp
  ultimately show ?thesis using c by blast
qed

text \<open>C33: closing a descriptor that is not in the table reads the cell after the last client. With three
  clients there is none; where the cell still holds the descriptor of a client that left, the
  length to move is negative. Otherwise \<open>-1\<close> is returned and nothing happens.\<close>

theorem close_unknown:
  assumes "table_ok cn" "fd \<notin> fst ` set (clients_of cn)"
  shows "closeManagementConnection cn fd e =
    (let n = length (clients_of cn)
     in if n = 3 \<or> mg_connections (cn_management cn) ! n = fd then Inl OutOfBounds else Inr (- 1, cn, e))"
proof -
  let ?mg = "cn_management cn" and ?n = "length (clients_of cn)"
  have t: "length (mg_connections ?mg) = 3" "mg_count ?mg = int ?n" "?n \<le> 3"
    using assms(1) count_clients[OF assms(1)] at_most_three[OF assms(1)] by (simp_all add: table_ok_def Let_def)
  obtain k where k: "find_client (mg_connections ?mg) fd [0..mg_count ?mg - 1] 0 = Inr k" "0 \<le> k" "k \<le> int ?n"
    "k < int ?n \<longrightarrow> mg_connections ?mg ! nat k = fd"
    using find_client_ok[of 0 "mg_count ?mg" "mg_connections ?mg" fd] t by auto
  have "\<not> k < int ?n"
  proof
    assume "k < int ?n"
    then have "nat k < ?n" "mg_connections ?mg ! nat k = fd" using k by auto
    moreover from this have "fst (clients_of cn ! nat k) = fd" using clients_nth[OF assms(1)] by simp
    moreover have "clients_of cn ! nat k \<in> set (clients_of cn)" using \<open>nat k < ?n\<close> by (rule nth_mem)
    ultimately show False using assms(2) by (metis image_eqI)
  qed
  then have "k = int ?n" using k(3) by simp
  then show ?thesis
    using k(1) t by (auto simp: closeManagementConnection_def rd_def shift_left_def Let_def)
qed

theorem close_unknown_witness:
  "closeManagementConnection two_clients 5 idle_env = Inr (- 1, two_clients, idle_env) \<and>
   closeManagementConnection two_clients 0 idle_env = Inl OutOfBounds"
  using close_unknown[OF two_clients(1), of 5 idle_env] close_unknown[OF two_clients(1), of 0 idle_env]
  by (simp add: two_clients(2)) (simp add: two_clients_def)

end
