(* ===== verification/Blink_Spec.thy ===== *)
theory Blink_Spec
  imports Plugin Handlers_Spec
begin

text \<open>
  The blink socket: the buffer \<open>setBlinkId\<close> allocates has room for every message \<open>sendPacket\<close>
  writes into it, and what is sent is the id, a blank and the direction and length of the packet.
\<close>

section \<open>The buffer\<close>

definition blink_ok :: "string \<Rightarrow> blink \<Rightarrow> bool" where
  "blink_ok ident b \<longleftrightarrow> NUL \<notin> set ident \<and> bl_id_len b = int (length ident) \<and>
     (\<exists>rest. bl_message b = Some (ident @ CHR '' '' # rest) \<and> length rest = 21 \<and> NUL \<in> set rest)"

lemma set_blink_id:
  assumes "e_malloc e (e_mallocs e)" "NUL \<notin> set ident"
  shows "\<exists>cn' e'. setBlinkId sy cn (Some ident) e = (int (length ident) + 21, cn', e') \<and> blink_ok ident (cn_blink cn') \<and>
    bl_socket_fd (cn_blink cn') = bl_socket_fd (cn_blink cn)"
proof -
  have "replicate 21 CHR '' '' @ [NUL] = CHR '' '' # (replicate 20 CHR '' '' @ [NUL])"
    by (simp add: eval_nat_numeral)
  then show ?thesis
    using assms by (simp add: setBlinkId_def alloc_def blink_ok_def Let_def BLINK_MESSAGE_CONTENT_SIZE_def)
qed

lemma c_string_append:
  assumes "NUL \<notin> set s"
  shows "c_string (s @ NUL # r) = Inr s"
proof -
  have "\<forall>c \<in> set s. c \<noteq> NUL" using assms by blast
  then show ?thesis by (simp add: c_string_def takeWhile_append2)
qed

lemma digits_no_nul: "NUL \<notin> set (print_nat n)"
proof
  assume "NUL \<in> set (print_nat n)"
  then have "digit 10 NUL \<noteq> None" using print_nat_digits[of n] by (simp add: all_digits_def)
  moreover have "digit 10 NUL = None" by (simp add: NUL_def digit_def isdigit_def char_code_def)
  ultimately show False by simp
qed

lemma blink_text_no_nul: "NUL \<notin> set (blink_text p)"
  using digits_no_nul
  by (auto simp: blink_text_def print_int_def NUL_def NL_def split: dir.splits if_splits)

lemma overwrite_tail:
  assumes "length s \<le> length rest"
  shows "overwrite (front @ rest) (int (length front)) s = Inr (front @ s @ drop (length s) rest)"
  using assms by (simp add: overwrite_def)

section \<open>Sending the datagram\<close>

lemma send_blink_returns:
  assumes "blink_ok ident (cn_blink cn)"
  shows "\<exists>cn' e'. send_blink cn p e = Inr (cn', e') \<and> blink_ok ident (cn_blink cn') \<and> cn_queue cn' = cn_queue cn \<and>
    e_trace e' = e_trace e @ [BlinkSend (ident @ '' '' @ take 19 (blink_text p))]"
proof -
  obtain rest where b: "bl_message (cn_blink cn) = Some (ident @ CHR '' '' # rest)" "length rest = 21" "NUL \<notin> set ident"
    "bl_id_len (cn_blink cn) = int (length ident)"
    using assms by (auto simp: blink_ok_def)
  let ?s = "take 19 (blink_text p)"
  let ?rest = "?s @ NUL # drop (Suc (length ?s)) rest"
  have fits: "length (?s @ [NUL]) \<le> length rest" using b(2) by simp
  have len: "int (length (ident @ '' '')) = int (length ident) + 1" by simp
  have "overwrite ((ident @ '' '') @ rest) (int (length (ident @ '' ''))) (?s @ [NUL]) =
      Inr ((ident @ '' '') @ (?s @ [NUL]) @ drop (length (?s @ [NUL])) rest)"
    by (rule overwrite_tail[OF fits])
  then have ow: "overwrite (ident @ CHR '' '' # rest) (int (length ident) + 1) (?s @ [NUL]) = Inr (ident @ CHR '' '' # ?rest)"
    unfolding len by simp
  have nn: "NUL \<notin> set ?s" using blink_text_no_nul by (meson in_set_takeD)
  then have "NUL \<notin> set (ident @ '' '' @ ?s)" using b(3) by (simp add: NUL_def)
  from c_string_append[OF this, of "drop (Suc (length ?s)) rest"]
  have cs: "c_string (ident @ CHR '' '' # ?rest) = Inr (ident @ '' '' @ ?s)" by simp
  have "length ?rest = 21" using b(2) fits by simp
  then have "blink_ok ident ((cn_blink cn)\<lparr>bl_message := Some (ident @ CHR '' '' # ?rest)\<rparr>)"
    using b(3,4) by (simp add: blink_ok_def)
  then show ?thesis
    using b(1,4) ow cs by (simp add: send_blink_def snprintf_def BLINK_MESSAGE_CONTENT_SIZE_def syscall_def Let_def)
qed

section \<open>Properties\<close>

text \<open>C25: every packet sent while a blink socket is open makes one datagram: the id, a blank, \<open>LR\<close> or
  \<open>RL\<close>, the length in decimal and a newline, cut to 19 characters after the blank; the buffer is
  never overrun and is ready for the next packet.\<close>

theorem blink_datagram:
  assumes "blink_ok ident (cn_blink cn)"
  shows "\<exists>cn' e'. send_blink cn p e = Inr (cn', e') \<and> blink_ok ident (cn_blink cn') \<and> cn_queue cn' = cn_queue cn \<and>
    e_trace e' = e_trace e @ [BlinkSend (ident @ '' '' @
      take 19 ((if pk_direction p = LEFT_TO_RIGHT then ''LR'' else ''RL'') @ '' '' @ print_int (sint (pk_len p)) @ [NL]))]"
  using send_blink_returns[OF assms, of p e] by (simp add: blink_text_def split: dir.splits)

theorem blink_datagram_witness:
  "\<exists>cn e cn1 e1 cn2 e2. setBlinkId small_system zero_conn (Some ''eth'') idle_env = (24, cn, e) \<and>
     send_blink cn ping e = Inr (cn1, e1) \<and> send_blink cn1 (ping\<lparr>pk_direction := RIGHT_TO_LEFT\<rparr>) e1 = Inr (cn2, e2) \<and>
     e_trace e2 = e_trace e @ [BlinkSend (''eth LR 4'' @ [NL]), BlinkSend (''eth RL 4'' @ [NL])]"
proof -
  have "NUL \<notin> set ''eth''" "e_malloc idle_env (e_mallocs idle_env)" by (simp_all add: NUL_def idle_env_def)
  then obtain cn e where s: "setBlinkId small_system zero_conn (Some ''eth'') idle_env = (24, cn, e)" "blink_ok ''eth'' (cn_blink cn)"
    using set_blink_id[of idle_env "''eth''" small_system zero_conn] by auto
  have four: "print_int 4 = ''4''" by code_simp
  have len: "pk_len ping = 4" "pk_direction ping = LEFT_TO_RIGHT" by (simp_all add: ping_def)
  obtain cn1 e1 where a: "send_blink cn ping e = Inr (cn1, e1)" "blink_ok ''eth'' (cn_blink cn1)"
    "e_trace e1 = e_trace e @ [BlinkSend (''eth LR 4'' @ [NL])]"
    using blink_datagram[OF s(2), of ping e] by (auto simp: len four)
  obtain cn2 e2 where b: "send_blink cn1 (ping\<lparr>pk_direction := RIGHT_TO_LEFT\<rparr>) e1 = Inr (cn2, e2)"
    "e_trace e2 = e_trace e1 @ [BlinkSend (''eth RL 4'' @ [NL])]"
    using blink_datagram[OF a(2), of "ping\<lparr>pk_direction := RIGHT_TO_LEFT\<rparr>" e1] by (auto simp: len four)
  show ?thesis
    by (rule exI[of _ cn], rule exI[of _ e], rule exI[of _ cn1], rule exI[of _ e1], rule exI[of _ cn2], rule exI[of _ e2])
      (simp add: s(1) a(1,3) b)
qed

end
