(* ===== verification/Wire_Order.thy ===== *)
theory Wire_Order
  imports Thread Blink_Spec
begin

text \<open>
  The wire as one queue. What was handed on (the sends in the trace) followed by what waits (the
  packets of the delay queue in the order of their stamps) is a list: in FIFO mode \<open>handle_copy\<close> appends a packet to it or drops
  it, and the queue timer moves the border between the two parts without changing the list.
\<close>

section \<open>What a copy does\<close>

text \<open>A copy is dropped by the buffer limit, or queued, or sent; nothing else is visible before.\<close>

definition prepared :: "packet \<Rightarrow> packet \<Rightarrow> bool" where
  "prepared p p' \<longleftrightarrow> same_frame (pk_buf p) (pk_buf p') \<and> pk_len p' = pk_len p \<and>
     pk_flags p' = pk_flags p \<and> pk_direction p' = pk_direction p"

lemma prepared_ok: "prepared p p' \<Longrightarrow> packet_ok p \<Longrightarrow> packet_ok p'"
  by (simp add: prepared_def same_frame_def packet_ok_def)

lemma handle_copy_outcome:
  assumes h: "handle_copy m p cn e = Inr (go, cn', e')" and p: "packet_ok p"
  shows "\<not> go \<and> cn' = cn \<and> calm e e' \<or>
    (\<exists>cn1 p' e1. go \<and> prepared p p' \<and> same_wires cn cn1 \<and> calm e e1 \<and>
      ((\<exists>t q e2. enqueue (cn_queue cn) p' t e1 = Inr (q, e2) \<and> setQueueTimer q e2 = Inr e' \<and>
          cn' = cn1\<lparr>cn_queue := q\<rparr>) \<or>
       \<not> (q_fifoness (cn_queue cn) = FIFO \<and> 0 < q_size (cn_queue cn)) \<and> sendPacket cn1 p' e1 = Inr (cn', e')))"
proof -
  obtain c ea where a: "packetCopy p e = Inr (c, ea)" using h by (auto simp: handle_copy_def rbind_eq_Inr)
  obtain to_send where c: "c = Some to_send" using h a by (cases c) (auto simp: handle_copy_def)
  then have ts: "to_send = p" using calm_copy(2)[OF a p] by simp
  obtain v eb where b: "bufferSizeHandler m cn p ea = Inr (v, eb)"
    using h a c ts by (auto simp: handle_copy_def rbind_eq_Inr)
  have cb: "calm e eb" using calm_copy(1)[OF a] calm_buffer[OF b] calm_trans by blast
  show ?thesis
  proof (cases "v = DROP")
    case True
    then show ?thesis using h a c ts b cb by (simp add: handle_copy_def)
  next
    case False
    obtain s cn0 ec where s: "speedHandler m cn p eb = Inr (s, cn0, ec)"
      using h a c ts b False by (auto simp: handle_copy_def rbind_eq_Inr)
    obtain w cn1 ed where w: "bandwidthHandler m cn0 p ec = Inr (w, cn1, ed)"
      using h a c ts b s False by (auto simp: handle_copy_def rbind_eq_Inr)
    obtain d ee where d: "delayHandler m cn1 p ed = Inr (d, ee)"
      using h a c ts b s w False by (auto simp: handle_copy_def rbind_eq_Inr)
    obtain p' ef where n: "noiseHandler m cn1 p ee = Inr (p', ef)"
      using h a c ts b s w d False by (auto simp: handle_copy_def rbind_eq_Inr Let_def)
    have sw: "same_wires cn cn1"
      using calm_speed[OF s] calm_bandwidth[OF w] same_wires_trans by blast
    have cf: "calm e ef"
      using cb calm_speed[OF s] calm_bandwidth[OF w] calm_delay[OF d] noise_frame[OF n] calm_trans by meson
    have pr: "prepared p p'" using noise_frame[OF n] by (simp add: prepared_def)
    let ?delay = "d_add (d_add (d_add (Fin 0) s) w) d"
    have qeq: "cn_queue cn1 = cn_queue cn" using sw by (simp add: same_wires_def)
    let ?queued = "d_lt (Fin 0) ?delay \<or> q_fifoness (cn_queue cn) = FIFO \<and> 0 < q_size (cn_queue cn)"
    have "(if d_lt (Fin 0) ?delay \<or> q_fifoness (cn_queue cn1) = FIFO \<and> 0 < q_size (cn_queue cn1) then
         rbind (now_ns ef) (\<lambda>(now, e).
         rbind (advance now ?delay) (\<lambda>forward_time.
         rbind (enqueue (cn_queue cn1) p' forward_time e) (\<lambda>(q, e).
         rbind (setQueueTimer q e) (\<lambda>e. Inr (True, cn1\<lparr>cn_queue := q\<rparr>, e)))))
       else rbind (sendPacket cn1 p' ef) (\<lambda>(cn, e). Inr (True, cn, e))) = Inr (go, cn', e')"
      using h a c ts b s w d n False by (simp add: handle_copy_def Let_def)
    note tail = this[unfolded qeq]
    show ?thesis
    proof (cases ?queued)
      case True
      then obtain now eg t q e2 where r: "now_ns ef = Inr (now, eg)" "enqueue (cn_queue cn) p' t eg = Inr (q, e2)"
        "setQueueTimer q e2 = Inr e'" "cn' = cn1\<lparr>cn_queue := q\<rparr>" "go"
        using tail by (auto simp: rbind_eq_Inr)
      have "calm e eg" using cf calm_now[OF r(1)] calm_trans by blast
      then show ?thesis using r pr sw by blast
    next
      case False
      then have "sendPacket cn1 p' ef = Inr (cn', e')" "go"
        "\<not> (q_fifoness (cn_queue cn) = FIFO \<and> 0 < q_size (cn_queue cn))"
        using tail by (auto simp: rbind_eq_Inr)
      then show ?thesis using pr sw cf by blast
    qed
  qed
qed

text \<open>The copy is dropped exactly when the bytes queued in its direction and its own exceed the value
  drawn for the buffer.\<close>

lemma handle_copy_verdict:
  assumes h: "handle_copy m p cn e = Inr (go, cn', e')" and p: "packet_ok p" and n: "current_node cn = Inr node"
  shows "go \<longleftrightarrow> \<not> (\<not> d_eq (maxWireValue node CHANBUFSIZE (pk_direction p)) (Fin 0) \<and>
    (\<exists>limit s. computeWireValue m node CHANBUFSIZE (pk_direction p) (e_rng e) = Inr (limit, s) \<and>
      d_lt limit (d_of_u64 (ucast (q_byte_size (cn_queue cn) (pk_direction p)) + pk_len p))))"
proof -
  obtain c ea where a: "packetCopy p e = Inr (c, ea)" using h by (auto simp: handle_copy_def rbind_eq_Inr)
  obtain to_send where c: "c = Some to_send" using h a by (cases c) (auto simp: handle_copy_def)
  then have ts: "to_send = p" using calm_copy(2)[OF a p] by simp
  have rng: "e_rng ea = e_rng e" using a by (auto simp: packetCopy_def alloc_def Let_def split: if_splits)
  obtain v eb where b: "bufferSizeHandler m cn p ea = Inr (v, eb)"
    using h a c ts by (auto simp: handle_copy_def rbind_eq_Inr)
  have "go \<longleftrightarrow> v \<noteq> DROP"
  proof (cases "v = DROP")
    case True
    then show ?thesis using h a c ts b by (simp add: handle_copy_def)
  next
    case False
    obtain s cn0 ec where s: "speedHandler m cn p eb = Inr (s, cn0, ec)"
      using h a c ts b False by (auto simp: handle_copy_def rbind_eq_Inr)
    obtain w cn1 ed where w: "bandwidthHandler m cn0 p ec = Inr (w, cn1, ed)"
      using h a c ts b s False by (auto simp: handle_copy_def rbind_eq_Inr)
    obtain d ee where d: "delayHandler m cn1 p ed = Inr (d, ee)"
      using h a c ts b s w False by (auto simp: handle_copy_def rbind_eq_Inr)
    obtain p' ef where n: "noiseHandler m cn1 p ee = Inr (p', ef)"
      using h a c ts b s w d False by (auto simp: handle_copy_def rbind_eq_Inr Let_def)
    let ?delay = "d_add (d_add (d_add (Fin 0) s) w) d"
    have "(if d_lt (Fin 0) ?delay \<or> q_fifoness (cn_queue cn1) = FIFO \<and> 0 < q_size (cn_queue cn1) then
         rbind (now_ns ef) (\<lambda>(now, e).
         rbind (advance now ?delay) (\<lambda>forward_time.
         rbind (enqueue (cn_queue cn1) p' forward_time e) (\<lambda>(q, e).
         rbind (setQueueTimer q e) (\<lambda>e. Inr (True, cn1\<lparr>cn_queue := q\<rparr>, e)))))
       else rbind (sendPacket cn1 p' ef) (\<lambda>(cn, e). Inr (True, cn, e))) = Inr (go, cn', e')"
      using h a c ts b s w d n False by (simp add: handle_copy_def Let_def)
    then have go by (auto simp: rbind_eq_Inr split: if_splits)
    then show ?thesis using False by simp
  qed
  moreover have "DROP \<noteq> FORWARD" by (simp add: DROP_def FORWARD_def)
  moreover have "v \<noteq> DROP \<longleftrightarrow> \<not> (\<not> d_eq (maxWireValue node CHANBUFSIZE (pk_direction p)) (Fin 0) \<and>
    (\<exists>limit s. computeWireValue m node CHANBUFSIZE (pk_direction p) (e_rng e) = Inr (limit, s) \<and>
      d_lt limit (d_of_u64 (ucast (q_byte_size (cn_queue cn) (pk_direction p)) + pk_len p))))"
  proof (cases "d_eq (maxWireValue node CHANBUFSIZE (pk_direction p)) (Fin 0)")
    case True
    then show ?thesis using b calculation(2) by (simp add: bufferSizeHandler_def n)
  next
    case False
    obtain limit s where w: "computeWireValue m node CHANBUFSIZE (pk_direction p) (e_rng e) = Inr (limit, s)"
      using b False rng by (cases "computeWireValue m node CHANBUFSIZE (pk_direction p) (e_rng e)")
        (auto simp: bufferSizeHandler_def n wire_def Let_def)
    then have "v = (if d_lt limit (d_of_u64 (ucast (q_byte_size (cn_queue cn) (pk_direction p)) + pk_len p)) then DROP else FORWARD)"
      using b False rng by (simp add: bufferSizeHandler_def n wire_def Let_def)
    then show ?thesis using False w calculation(2) by simp
  qed
  ultimately show ?thesis by blast
qed

section \<open>Sending\<close>

fun is_send :: "event \<Rightarrow> bool" where
  "is_send (VdeSend data flags) = True"
| "is_send (PipeWrite data) = True"
| "is_send _ = False"

definition sends :: "env \<Rightarrow> event list" where
  "sends e = filter is_send (e_trace e)"

lemma sent_is_send [simp]: "is_send (sent_event p)"
  by (cases "pk_direction p") (simp_all add: sent_event_def)

lemma calm_sends: "calm e e' \<Longrightarrow> sends e' = sends e"
  by (simp add: sends_def calm_def)

lemma sends_emit: "sends (emit ev e) = sends e @ (if is_send ev then [ev] else [])"
  by (simp add: sends_def)

lemma sends_quiet [simp]: "sends (release e) = sends e" "sends (e\<lparr>e_calls := n\<rparr>) = sends e"
  by (simp_all add: sends_def)

lemma send_blink_sends:
  "send_blink cn p e = Inr (cn', e') \<Longrightarrow> cn_queue cn' = cn_queue cn \<and> sends e' = sends e \<and> same_oracles e e'"
  by (auto simp: send_blink_def Let_def rbind_eq_Inr syscall_def sends_emit same_oracles_def)

lemma sendPacket_sends:
  assumes "sendPacket cn p e = Inr (cn', e')" "packet_ok p"
  shows "cn_queue cn' = cn_queue cn \<and> sends e' = sends e @ [sent_event p] \<and> same_oracles e e'"
proof -
  have "(case pk_direction p of LEFT_TO_RIGHT \<Rightarrow> VdeSend (pk_buf p) (pk_flags p)
      | RIGHT_TO_LEFT \<Rightarrow> PipeWrite (pk_buf p)) = sent_event p" by (simp add: sent_event_def)
  then have tail: "cn' = c \<and> e' = release (snd (syscall (emit (sent_event p) e0)))"
    if "rbind (Inr (c, e0)) (\<lambda>(cn, e). if length (pk_buf p) < unat (pk_len p) then Inl OutOfBounds
       else let data = take (unat (pk_len p)) (pk_buf p);
             (_, e) = syscall (emit (case pk_direction p of LEFT_TO_RIGHT \<Rightarrow> VdeSend data (pk_flags p)
                                     | RIGHT_TO_LEFT \<Rightarrow> PipeWrite data) e)
         in Inr (cn, release e)) = Inr (cn', e')" for c e0
    using that packet_ok_take[OF assms(2)] by (auto simp: syscall_def Let_def split: if_splits)
  show ?thesis
  proof (cases "bl_socket_fd (cn_blink cn) = 0")
    case True
    then have "cn' = cn \<and> e' = release (snd (syscall (emit (sent_event p) e)))"
      using assms(1) tail[of cn e] by (simp add: sendPacket_def)
    then show ?thesis by (simp add: syscall_def sends_emit same_oracles_def)
  next
    case False
    then obtain c e0 where b: "send_blink cn p e = Inr (c, e0)" using assms(1) by (auto simp: sendPacket_def rbind_eq_Inr)
    then have "cn' = c \<and> e' = release (snd (syscall (emit (sent_event p) e0)))"
      using assms(1) False tail[of c e0] by (simp add: sendPacket_def)
    then show ?thesis using send_blink_sends[OF b] by (simp add: syscall_def sends_emit same_oracles_def)
  qed
qed

section \<open>The list of the wire\<close>

definition wire_list :: "conn \<Rightarrow> env \<Rightarrow> event list" where
  "wire_list cn e = sends e @ map (sent_event \<circ> node_packet) (by_key (cn_queue cn))"

lemma quiet_sends: "quiet e e' \<Longrightarrow> sends e' = sends e"
  by (simp add: sends_def quiet_def)

lemma fifo_not_waiting: "fifo_inv q \<Longrightarrow> \<not> 0 < q_size q \<Longrightarrow> by_key q = []"
  using by_key_empty[of q] by (simp add: fifo_inv_def word_gt_0)

lemma enqueue_wire:
  assumes "enqueue q p t e = Inr (q', e')" "fifo_inv q" "q_counter q \<noteq> - 1" "env_ok e"
  shows "fifo_inv q' \<and> by_key q' = by_key q @ [new_node q p t] \<and> sends e' = sends e"
proof -
  have inv: "queue_inv q" using assms(2) by (simp add: fifo_inv_def)
  have room: "unat (q_size q) < 99" using enqueue_returns_size[OF inv assms(4,1)] .
  have "stamp_free q t" using assms(3) by (simp add: stamp_free_def)
  then have "fifo_inv q' \<and> by_key q' = by_key q @ [new_node q p t]"
    using enqueue_by_key[OF assms(2,4) _ assms(1)] by blast
  moreover have "quiet e e'" using enqueue_correct[OF inv assms(4) room, of p t] assms(1) by auto
  ultimately show ?thesis using quiet_sends by simp
qed

lemma new_node_packet [simp]: "node_packet (new_node q p t) = p"
  by (simp add: new_node_def node_packet_def Let_def split: prod.splits)

lemma copy_on_wire:
  assumes "handle_copy m p cn e = Inr (go, cn', e')" "packet_ok p" "env_ok e"
    and "fifo_inv (cn_queue cn)" "q_counter (cn_queue cn) \<noteq> - 1"
  shows "fifo_inv (cn_queue cn') \<and> (\<not> go \<longrightarrow> cn' = cn \<and> e_trace e' = e_trace e) \<and>
    (go \<longrightarrow> (\<exists>p'. prepared p p' \<and> wire_list cn' e' = wire_list cn e @ [sent_event p']))"
  using handle_copy_outcome[OF assms(1,2)]
proof (elim disjE exE conjE)
  assume "\<not> go" "cn' = cn" "calm e e'"
  then show ?thesis using assms(4) by (simp add: calm_def)
next
  fix cn1 p' e1 t q e2
  assume r: "go" "prepared p p'" "calm e e1" "enqueue (cn_queue cn) p' t e1 = Inr (q, e2)"
    "setQueueTimer q e2 = Inr e'" "cn' = cn1\<lparr>cn_queue := q\<rparr>"
  have "env_ok e1" using calm_ok[OF r(3) assms(3)] .
  note en = enqueue_wire[OF r(4) assms(4,5) this]
  obtain s n where "e_trace e' = e_trace e2 @ [SetTime (q_timerfd q) s n]" using setQueueTimer_trace[OF r(5)] by blast
  then have "sends e' = sends e2" by (simp add: sends_def)
  then show ?thesis using en r(1,2,6) calm_sends[OF r(3)] by (auto simp: wire_list_def)
next
  fix cn1 p' e1
  assume r: "go" "prepared p p'" "same_wires cn cn1" "calm e e1"
    "\<not> (q_fifoness (cn_queue cn) = FIFO \<and> 0 < q_size (cn_queue cn))" "sendPacket cn1 p' e1 = Inr (cn', e')"
  have "by_key (cn_queue cn) = []"
    using r(5) assms(4) fifo_not_waiting by (auto simp: fifo_inv_def)
  moreover have "cn_queue cn' = cn_queue cn" "sends e' = sends e1 @ [sent_event p']"
    using sendPacket_sends[OF r(6) prepared_ok[OF r(2) assms(2)]] r(3) by (simp_all add: same_wires_def)
  ultimately show ?thesis using r(1,2) assms(4) calm_sends[OF r(4)] by (auto simp: wire_list_def)
qed

section \<open>Queues filled with increasing times\<close>

lemma enqueue_all_by_key:
  assumes "fifo_inv q" "env_ok e" "unat (q_size q) + length pts \<le> 99" "unat (q_counter q) + length pts < 2 ^ 32"
    and "sorted (q_max_forward_time q # map snd pts)"
  shows "\<exists>q' e' ns. enqueue_all q pts e = Inr (q', e') \<and> fifo_inv q' \<and> by_key q' = by_key q @ ns \<and>
    map node_packet ns = map fst pts \<and> map qn_time ns = map snd pts \<and>
    unat (q_counter q') \<le> unat (q_counter q) + length pts"
  using assms
proof (induction pts arbitrary: q e)
  case (Cons pt pts)
  obtain p t where pt: "pt = (p, t)" by fastforce
  have inv: "queue_inv q" and fifo: "q_fifoness q = FIFO" using Cons.prems(1) by (simp_all add: fifo_inv_def)
  have sz: "unat (q_size q) < 99" using Cons.prems(3) by simp
  have "q_counter q \<noteq> - 1"
  proof
    assume "q_counter q = - 1"
    then have "unat (q_counter q) = 4294967295"
      by (simp add: unsigned_minus_1_eq_mask mask_eq_exp_minus_1)
    then show False using Cons.prems(4) by simp
  qed
  then have free: "stamp_free q t" by (simp add: stamp_free_def)
  have le: "q_max_forward_time q \<le> t" "sorted (t # map snd pts)" using Cons.prems(5) by (auto simp: pt)
  obtain q1 e1 where r: "enqueue q p t e = Inr (q1, e1)" "quiet e e1" "q_size q1 = q_size q + 1"
    "q_counter q1 = q_counter (fst (fifo_stamp q t))" "q_max_forward_time q1 = q_max_forward_time (fst (fifo_stamp q t))"
    using enqueue_correct[OF inv Cons.prems(2) sz, of p t] by blast
  have k: "fifo_inv q1" "by_key q1 = by_key q @ [new_node q p t]"
    using enqueue_by_key[OF Cons.prems(1,2) free r(1)] by simp_all
  have s: "q_max_forward_time q1 = t" "qn_time (new_node q p t) = t"
    using le(1) by (auto simp: r(5) fifo_stamp_def new_node_def fifo)
  have "unat (q_size q1) = Suc (unat (q_size q))" using small_word_arith[of "q_size q"] sz r by simp
  moreover have c: "unat (q_counter q1) \<le> Suc (unat (q_counter q))"
    using fifo_stamp_counter[of q t] r(4) by simp
  ultimately obtain q' e' ns where h: "enqueue_all q1 pts e1 = Inr (q', e')" "fifo_inv q'" "by_key q' = by_key q1 @ ns"
    "map node_packet ns = map fst pts" "map qn_time ns = map snd pts" "unat (q_counter q') \<le> unat (q_counter q1) + length pts"
    using Cons.IH[OF k(1), of e1] Cons.prems(2-4) quiet_ok[OF r(2)] le(2) s(1) by auto
  show ?case
    using r(1) h k(2) c s(2)
    by (intro exI[of _ q'] exI[of _ e'] exI[of _ "new_node q p t # ns"]) (simp add: pt)
qed (use exI[of _ "[]"] in auto)

lemma filled_queue:
  assumes "length pts \<le> 99" "sorted (map snd pts)"
  shows "\<exists>q e ns. enqueue_all empty_queue pts idle_env = Inr (q, e) \<and> fifo_inv q \<and> by_key q = ns \<and>
    map node_packet ns = map fst pts \<and> map qn_time ns = map snd pts \<and> q_counter q \<noteq> - 1"
proof -
  have e: "by_key empty_queue = []" "q_max_forward_time empty_queue = 0"
    by (simp_all add: by_key_def empty_queue_def)
  obtain q e ns where q: "enqueue_all empty_queue pts idle_env = Inr (q, e)" "fifo_inv q" "by_key q = ns"
    "map node_packet ns = map fst pts" "map qn_time ns = map snd pts" "unat (q_counter q) \<le> 99"
    using enqueue_all_by_key[OF empty_queue_inv(3) idle_env_ok, of pts] assms
    by (auto simp: empty_queue_inv e)
  have "q_counter q \<noteq> - 1" using q(6) by (auto simp: unsigned_minus_1_eq_mask mask_eq_exp_minus_1)
  then show ?thesis using q by blast
qed

section \<open>Copies\<close>

text \<open>A node whose buffer holds 10 bytes: with one ping of four bytes queued another is appended, with two
  it is dropped.\<close>

definition ten_bytes :: "queue \<Rightarrow> conn" where
  "ten_bytes q = (conn_with CHANBUFSIZE (Fin 10))\<lparr>cn_queue := q\<rparr>"

lemma ten_bytes_parts: "cn_queue (ten_bytes q) = q" "current_node (ten_bytes q) = Inr (with_value CHANBUFSIZE (Fin 10))"
  "fixed (with_value CHANBUFSIZE (Fin 10)) d CHANBUFSIZE (Fin 10)"
  "t \<in> {SPEED, BANDWIDTH, DELAY, NOISE} \<Longrightarrow> unset (with_value CHANBUFSIZE (Fin 10)) d t"
proof -
  show "cn_queue (ten_bytes q) = q" by (simp add: ten_bytes_def)
  show "current_node (ten_bytes q) = Inr (with_value CHANBUFSIZE (Fin 10))"
    using conn_with_node(1)[of CHANBUFSIZE "Fin 10"] by (simp add: ten_bytes_def current_node_def)
  show "fixed (with_value CHANBUFSIZE (Fin 10)) d CHANBUFSIZE (Fin 10)" by (rule conn_with_node(4))
  show "unset (with_value CHANBUFSIZE (Fin 10)) d t" if "t \<in> {SPEED, BANDWIDTH, DELAY, NOISE}"
    using that by (intro conn_with_node(5)) auto
qed

lemma queued_bytes:
  assumes "queue_inv q"
  shows "q_byte_size q d = (\<Sum>n\<leftarrow>by_key q. if pk_direction (node_packet n) = d then ucast (pk_len (node_packet n)) else 0)"
proof -
  have "node_bytes d n = (if pk_direction (node_packet n) = d then ucast (pk_len (node_packet n)) else 0)"
    if "n \<in> set (by_key q)" for n
  proof -
    have "n \<in># queue_nodes q" using that by (simp flip: by_key_nodes(1))
    then have "qn_packet n \<noteq> None" using assms by (simp add: queue_inv_def)
    then show ?thesis by (auto simp: node_bytes_packet node_packet_def)
  qed
  then have "map (node_bytes d) (by_key q) = map (\<lambda>n. if pk_direction (node_packet n) = d then ucast (pk_len (node_packet n)) else 0) (by_key q)"
    by simp
  moreover have "q_byte_size q d = sum_mset (mset (map (node_bytes d) (by_key q)))"
    using assms by (simp add: queue_inv_def by_key_nodes)
  ultimately show ?thesis by (simp only: sum_mset_sum_list)
qed

lemma ten_bytes_queue:
  assumes "n \<le> 2"
  shows "\<exists>q e. enqueue_all empty_queue (replicate n (ping, 7)) idle_env = Inr (q, e) \<and> fifo_inv q \<and> q_counter q \<noteq> - 1 \<and>
    map node_packet (by_key q) = replicate n ping \<and> q_byte_size q LEFT_TO_RIGHT = of_nat (4 * n) \<and> unat (q_size q) = n"
proof -
  obtain q e ns where q: "enqueue_all empty_queue (replicate n (ping, 7)) idle_env = Inr (q, e)" "fifo_inv q" "by_key q = ns"
    "map node_packet ns = replicate n ping" "q_counter q \<noteq> - 1"
    using filled_queue[of "replicate n (ping, 7)"] assms by (auto simp: sorted_replicate)
  have inv: "queue_inv q" using q(2) by (simp add: fifo_inv_def)
  have "q_byte_size q LEFT_TO_RIGHT = (\<Sum>p\<leftarrow>map node_packet ns. if pk_direction p = LEFT_TO_RIGHT then ucast (pk_len p) else 0)"
    using queued_bytes[OF inv] by (simp add: q(3) comp_def)
  also have "\<dots> = of_nat (4 * n)" by (simp add: q(4) sum_list_replicate ping_def)
  finally have "q_byte_size q LEFT_TO_RIGHT = of_nat (4 * n)" .
  moreover have "unat (q_size q) = length ns" using size_queue_nodes[OF inv] q(3) by (simp flip: by_key_nodes(1))
  moreover have "length ns = n" using arg_cong[OF q(4), of length] by simp
  ultimately show ?thesis using q by blast
qed

lemma ten_bytes_drop:
  assumes "q_byte_size q LEFT_TO_RIGHT = 8"
  shows "\<exists>e'. handle_copy idle_libm ping (ten_bytes q) idle_env = Inr (False, ten_bytes q, e')"
proof -
  have "is_double (Fin 10)" "d_lt (Fin 10) (d_of_u64 (ucast (8 :: u32) + 4))" by code_simp+
  moreover have "pk_len ping = 4" "pk_direction ping = LEFT_TO_RIGHT" by (simp_all add: ping_def)
  ultimately show ?thesis
    using assms ten_bytes_parts(2)
    by (simp add: handle_copy_def packetCopy_ok[OF ping_ok idle_env_ok] bufferSizeHandler_def ten_bytes_parts(1)
        fixed_values(2)[OF ten_bytes_parts(3)] fixed_wire[OF ten_bytes_parts(3)] d_eq_def)
qed

lemma ten_bytes_keep:
  assumes "fifo_inv q" "q_byte_size q LEFT_TO_RIGHT = 4" "unat (q_size q) = 1"
  shows "\<exists>cn' e'. handle_copy idle_libm ping (ten_bytes q) idle_env = Inr (True, cn', e')"
proof -
  let ?e1 = "idle_env\<lparr>e_mallocs := e_mallocs idle_env + 2, e_live := e_live idle_env + 2, e_reads := 1\<rparr>"
  have inv: "queue_inv q" "q_fifoness q = FIFO" "0 < q_size q" using assms by (auto simp: fifo_inv_def word_gt_0)
  have "is_double (Fin 10)" "\<not> d_lt (Fin 10) (d_of_u64 (ucast (4 :: u32) + 4))"
    "advance 1700000000000000000 (Fin 0) = Inr 1700000000000000000" by code_simp+
  moreover have "pk_len ping = 4" "pk_direction ping = LEFT_TO_RIGHT" by (simp_all add: ping_def)
  moreover have "now_ns (idle_env\<lparr>e_mallocs := e_mallocs idle_env + 2, e_live := e_live idle_env + 2\<rparr>) =
      Inr (1700000000000000000, ?e1)"
    by (simp add: now_ns_def idle_env_def)
  moreover have ok: "env_ok ?e1" using idle_env_ok env_ok_cong[of ?e1 idle_env] by simp
  moreover obtain q' e2 where enq: "enqueue q ping 1700000000000000000 ?e1 = Inr (q', e2)" "queue_inv q'" "quiet ?e1 e2"
    "queue_nodes q' = add_mset (new_node q ping 1700000000000000000) (queue_nodes q)"
    using enqueue_correct[OF inv(1) ok, of ping 1700000000000000000] assms(3) by auto
  moreover have ne: "queue_nodes q' \<noteq> {#}" "env_ok e2" using enq(4) quiet_ok[OF enq(3)] ok by simp_all
  moreover obtain e3 where "setQueueTimer q' e2 = Inr e3" using setQueueTimer_returns[OF enq(2) ne] by blast
  moreover note unset_values[OF ten_bytes_parts(4)]
  ultimately show ?thesis
    using assms(2) inv ten_bytes_parts(2)
    by (simp add: handle_copy_def packetCopy_ok[OF ping_ok idle_env_ok] bufferSizeHandler_def ten_bytes_parts(1)
        fixed_values(2)[OF ten_bytes_parts(3)] fixed_wire[OF ten_bytes_parts(3)] d_eq_def
        speedHandler_def bandwidthHandler_def delayHandler_def noiseHandler_def FORWARD_def DROP_def)
qed

text \<open>C1: in FIFO mode the wire is one queue. A copy is dropped, without any effect on the connection or
  the trace, exactly when the bytes queued in its direction and its own exceed the value drawn for
  the buffer; every other copy is appended behind everything sent or waiting, whatever its delay,
  with at most its noise changed.\<close>

theorem wire_appends:
  assumes "handle_copy m p cn e = Inr (go, cn', e')" "packet_ok p" "env_ok e" "current_node cn = Inr node"
    and "fifo_inv (cn_queue cn)" "q_counter (cn_queue cn) \<noteq> - 1"
  shows "fifo_inv (cn_queue cn') \<and>
    (go \<longleftrightarrow> \<not> (\<not> d_eq (maxWireValue node CHANBUFSIZE (pk_direction p)) (Fin 0) \<and>
      (\<exists>limit s. computeWireValue m node CHANBUFSIZE (pk_direction p) (e_rng e) = Inr (limit, s) \<and>
        d_lt limit (d_of_u64 (ucast (q_byte_size (cn_queue cn) (pk_direction p)) + pk_len p))))) \<and>
    (\<not> go \<longrightarrow> cn' = cn \<and> e_trace e' = e_trace e) \<and>
    (go \<longrightarrow> (\<exists>p'. prepared p p' \<and> wire_list cn' e' = wire_list cn e @ [sent_event p']))"
  using handle_copy_verdict[OF assms(1,2,4)] copy_on_wire[OF assms(1-3,5,6)] by blast

theorem wire_appends_witness:
  "\<exists>q1 q2 e1 e2 cn' e' p' e''.
     enqueue_all empty_queue [(ping, 7)] idle_env = Inr (q1, e1) \<and>
     enqueue_all empty_queue [(ping, 7), (ping, 7)] idle_env = Inr (q2, e2) \<and>
     handle_copy idle_libm ping (ten_bytes q1) idle_env = Inr (True, cn', e') \<and>
     prepared ping p' \<and> wire_list cn' e' = [sent_event ping, sent_event p'] \<and>
     handle_copy idle_libm ping (ten_bytes q2) idle_env = Inr (False, ten_bytes q2, e'') \<and> e_trace e'' = []"
proof -
  obtain q1 e1 where q1: "enqueue_all empty_queue [(ping, 7)] idle_env = Inr (q1, e1)" "fifo_inv q1" "q_counter q1 \<noteq> - 1"
    "map node_packet (by_key q1) = [ping]" "q_byte_size q1 LEFT_TO_RIGHT = 4" "unat (q_size q1) = 1"
    using ten_bytes_queue[of 1] by auto
  obtain q2 e2 where q2: "enqueue_all empty_queue [(ping, 7), (ping, 7)] idle_env = Inr (q2, e2)" "fifo_inv q2" "q_counter q2 \<noteq> - 1"
    "q_byte_size q2 LEFT_TO_RIGHT = 8"
    using ten_bytes_queue[of 2] by (auto simp: eval_nat_numeral)
  obtain cn' e' where k: "handle_copy idle_libm ping (ten_bytes q1) idle_env = Inr (True, cn', e')"
    using ten_bytes_keep[OF q1(2,5,6)] by blast
  obtain e'' where d: "handle_copy idle_libm ping (ten_bytes q2) idle_env = Inr (False, ten_bytes q2, e'')"
    using ten_bytes_drop[OF q2(4)] by blast
  have "map (sent_event \<circ> node_packet) (by_key q1) = map sent_event (map node_packet (by_key q1))" by simp
  then have "wire_list (ten_bytes q1) idle_env = [sent_event ping]"
    by (simp add: wire_list_def sends_def idle_env_def ten_bytes_parts(1) q1(4) del: map_map)
  then obtain p' where "prepared ping p'" "wire_list cn' e' = [sent_event ping, sent_event p']"
    using wire_appends[OF k ping_ok idle_env_ok ten_bytes_parts(2)] q1(2,3) by (auto simp: ten_bytes_parts(1))
  moreover have "e_trace e'' = []"
    using wire_appends[OF d ping_ok idle_env_ok ten_bytes_parts(2)] q2(2,3)
    by (simp add: ten_bytes_parts(1)) (simp add: idle_env_def)
  ultimately show ?thesis using q1(1) q2(1) k d by blast
qed

section \<open>The queue timer\<close>

definition blink_ready :: "conn \<Rightarrow> bool" where
  "blink_ready cn \<longleftrightarrow> bl_socket_fd (cn_blink cn) = 0 \<or> (\<exists>ident. blink_ok ident (cn_blink cn))"

lemma sendPacket_returns:
  assumes "packet_ok p" "blink_ready cn"
  shows "\<exists>cn' e'. sendPacket cn p e = Inr (cn', e') \<and> blink_ready cn'"
proof (cases "bl_socket_fd (cn_blink cn) = 0")
  case True
  then show ?thesis using assms by (simp add: sendPacket_def packet_ok_def syscall_def Let_def)
next
  case False
  then obtain ident where "blink_ok ident (cn_blink cn)" using assms(2) by (auto simp: blink_ready_def)
  from send_blink_returns[OF this, of p e] obtain cn' e' where
    "send_blink cn p e = Inr (cn', e')" "blink_ok ident (cn_blink cn')" by blast
  then show ?thesis
    using False assms(1) by (auto simp: sendPacket_def packet_ok_def syscall_def Let_def blink_ready_def)
qed

lemma send_blink_reads: "send_blink cn p e = Inr (cn', e') \<Longrightarrow> e_reads e' = e_reads e"
  by (auto simp: send_blink_def Let_def rbind_eq_Inr syscall_def)

lemma sendPacket_reads: "sendPacket cn p e = Inr (cn', e') \<Longrightarrow> e_reads e' = e_reads e"
  by (auto simp: sendPacket_def Let_def rbind_eq_Inr syscall_def split: if_splits dest: send_blink_reads)

text \<open>The head of a queue in FIFO mode can be taken out and sent.\<close>

lemma send_head:
  assumes "fifo_inv (cn_queue cn)" "by_key (cn_queue cn) = n # ns" "packet_ok (node_packet n)" "blink_ready cn" "env_ok e"
  shows "\<exists>q cn' e'. dequeue (cn_queue cn) e = Inr (Some (node_packet n), q, release e) \<and>
    sendPacket (cn\<lparr>cn_queue := q\<rparr>) (node_packet n) (release e) = Inr (cn', e') \<and> fifo_inv (cn_queue cn') \<and>
    by_key (cn_queue cn') = ns \<and> sends e' = sends e @ [sent_event (node_packet n)] \<and> blink_ready cn' \<and>
    env_ok e' \<and> same_oracles e e' \<and> e_reads e' = e_reads e"
proof -
  let ?p = "node_packet n"
  obtain q where q: "dequeue (cn_queue cn) e = Inr (Some ?p, q, release e)" "fifo_inv q" "by_key q = ns"
    using dequeue_by_key[OF assms(1,2), of e] by (auto simp: node_packet_def)
  have "blink_ready (cn\<lparr>cn_queue := q\<rparr>)" using assms(4) by (simp add: blink_ready_def)
  then obtain cn' e' where s: "sendPacket (cn\<lparr>cn_queue := q\<rparr>) ?p (release e) = Inr (cn', e')" "blink_ready cn'"
    using sendPacket_returns[OF assms(3)] by blast
  note f = sendPacket_sends[OF s(1) assms(3)]
  have "env_ok e'" using f same_oracles_ok quiet_ok[OF quiet_release] assms(5) by blast
  moreover have "same_oracles e e'" using f by (simp add: same_oracles_def release_def)
  moreover have "e_reads e' = e_reads e" using sendPacket_reads[OF s(1)] by (simp add: release_def)
  ultimately show ?thesis using q s f by auto
qed

text \<open>The time the thread reads with its reading number \<open>i\<close>, counted from the state given.\<close>

definition reading :: "env \<Rightarrow> nat \<Rightarrow> u64" where
  "reading e i = (let v = e_clock e (e_reads e + i) in word_of_int (tv_sec v * 1000000000 + tv_usec v * 1000))"

lemma reading_now:
  assumes "env_ok e"
  shows "now_ns e = Inr (reading e 0, e\<lparr>e_reads := Suc (e_reads e)\<rparr>)"
  using now_ns_ok[OF assms] by (auto simp: now_ns_def reading_def Let_def split: if_splits)

lemma reading_later:
  "same_oracles e e' \<Longrightarrow> e_reads e' = Suc (e_reads e) \<Longrightarrow> reading e' i = reading e (Suc i)"
  by (simp add: reading_def same_oracles_def)

lemma send_due_run:
  assumes "fifo_inv (cn_queue cn)" "\<forall>n \<in> set (by_key (cn_queue cn)). packet_ok (node_packet n)" "blink_ready cn" "env_ok e"
  shows "\<exists>k cn' e'. send_due cn e = Inr (cn', e') \<and> fifo_inv (cn_queue cn') \<and> k \<le> length (by_key (cn_queue cn)) \<and>
    (\<forall>i < k. qn_time (by_key (cn_queue cn) ! i) < reading e i) \<and>
    (k < length (by_key (cn_queue cn)) \<longrightarrow> reading e k \<le> qn_time (by_key (cn_queue cn) ! k)) \<and>
    sends e' = sends e @ map (sent_event \<circ> node_packet) (take k (by_key (cn_queue cn))) \<and>
    by_key (cn_queue cn') = drop k (by_key (cn_queue cn))"
  using assms
proof (induction "by_key (cn_queue cn)" arbitrary: cn e)
  case Nil
  then have "\<not> 0 < q_size (cn_queue cn)" using by_key_empty[of "cn_queue cn"] by (auto simp: fifo_inv_def)
  then show ?case using Nil by (subst send_due.simps) simp
next
  case (Cons n ns)
  note b = Cons.hyps(2)[symmetric]
  have inv: "queue_inv (cn_queue cn)" using Cons.prems(1) by (simp add: fifo_inv_def)
  have ne: "q_size (cn_queue cn) \<noteq> 0" using b by_key_empty[OF inv] by auto
  have due: "nextQueueTime (cn_queue cn) = Inr (qn_time n)" using dequeue_by_key[OF Cons.prems(1) b] by blast
  note now = reading_now[OF Cons.prems(4)]
  let ?e = "e\<lparr>e_reads := Suc (e_reads e)\<rparr>"
  have ok: "env_ok ?e" using Cons.prems(4) env_ok_cong[of ?e e] by simp
  have se: "sends ?e = sends e" by (simp add: sends_def)
  show ?case
  proof (cases "qn_time n < reading e 0")
    case True
    have pn: "packet_ok (node_packet n)" using Cons.prems(2) b by simp
    obtain q cn1 e1 where h: "dequeue (cn_queue cn) ?e = Inr (Some (node_packet n), q, release ?e)"
      "sendPacket (cn\<lparr>cn_queue := q\<rparr>) (node_packet n) (release ?e) = Inr (cn1, e1)" "fifo_inv (cn_queue cn1)"
      "by_key (cn_queue cn1) = ns" "sends e1 = sends ?e @ [sent_event (node_packet n)]" "blink_ready cn1" "env_ok e1"
      "same_oracles ?e e1" "e_reads e1 = e_reads ?e"
      using send_head[OF Cons.prems(1) b pn Cons.prems(3) ok] by blast
    have rd: "reading e1 i = reading e (Suc i)" for i
      using reading_later[of e e1 i] h(8,9) by (simp add: same_oracles_def)
    have "\<forall>n \<in> set (by_key (cn_queue cn1)). packet_ok (node_packet n)" using Cons.prems(2) h(4) b by simp
    from Cons.hyps(1)[OF h(4)[symmetric] h(3) this h(6,7), unfolded h(4) rd]
    obtain k cn' e' where r: "send_due cn1 e1 = Inr (cn', e')" "fifo_inv (cn_queue cn')" "k \<le> length ns"
      "\<forall>i < k. qn_time (ns ! i) < reading e (Suc i)" "k < length ns \<longrightarrow> reading e (Suc k) \<le> qn_time (ns ! k)"
      "sends e' = sends e1 @ map (sent_event \<circ> node_packet) (take k ns)" "by_key (cn_queue cn') = drop k ns"
      by blast
    have "send_due cn e = Inr (cn', e')"
      using ne due now True h(1,2) r(1) by (subst send_due.simps) (simp add: word_gt_0)
    moreover have "\<forall>i < Suc k. qn_time ((n # ns) ! i) < reading e i"
      using r(4) True by (auto simp: less_Suc_eq_0_disj)
    ultimately show ?thesis
      using r(2,3,5-7) h(5) se by (intro exI[of _ "Suc k"] exI[of _ cn'] exI[of _ e']) (simp add: b)
  next
    case False
    have "send_due cn e = Inr (cn, ?e)"
      using ne due now False by (subst send_due.simps) (simp add: word_gt_0)
    then show ?thesis
      using Cons.prems(1) False se b by (intro exI[of _ 0] exI[of _ cn] exI[of _ ?e]) (simp add: not_less)
  qed
qed

text \<open>C2: when the queue timer fires the thread sends, in order, exactly the packets at the front of the
  queue whose forward times lie before the times read: the first \<open>k\<close> packets, the time read for
  packet \<open>i\<close> being later than its forward time for \<open>i < k\<close> and not for \<open>k\<close>. The others stay queued
  in their order, and the loop ends.\<close>

theorem due_packets_sent:
  assumes "fifo_inv (cn_queue cn)" "by_key (cn_queue cn) = ns" "\<forall>n \<in> set ns. packet_ok (node_packet n)"
    and "blink_ready cn" "env_ok e"
  shows "\<exists>k cn' e'. send_due cn e = Inr (cn', e') \<and> k \<le> length ns \<and>
    (\<forall>i < k. qn_time (ns ! i) < reading e i) \<and>
    (k < length ns \<longrightarrow> reading e k \<le> qn_time (ns ! k)) \<and>
    sends e' = sends e @ map (sent_event \<circ> node_packet) (take k ns) \<and>
    by_key (cn_queue cn') = drop k ns \<and> fifo_inv (cn_queue cn') \<and> wire_list cn' e' = wire_list cn e"
proof -
  obtain k cn' e' where r: "send_due cn e = Inr (cn', e')" "fifo_inv (cn_queue cn')" "k \<le> length ns"
    "\<forall>i < k. qn_time (ns ! i) < reading e i" "k < length ns \<longrightarrow> reading e k \<le> qn_time (ns ! k)"
    "sends e' = sends e @ map (sent_event \<circ> node_packet) (take k ns)" "by_key (cn_queue cn') = drop k ns"
    using send_due_run[of cn e, unfolded assms(2)] assms by blast
  have "wire_list cn' e' = wire_list cn e"
    by (simp add: wire_list_def r(6,7) assms(2) flip: map_append)
  then show ?thesis using r by blast
qed

text \<open>Two packets are due and one is not: the first two are sent and the third waits.\<close>

theorem due_packets_sent_witness:
  "\<exists>q e cn' e'.
     enqueue_all empty_queue [(flagged 0, 7), (flagged 1, 7), (flagged 2, 1800000000000000000)] idle_env = Inr (q, e) \<and>
     send_due (open_conn\<lparr>cn_queue := q\<rparr>) idle_env = Inr (cn', e') \<and>
     sends e' = [sent_event (flagged 0), sent_event (flagged 1)] \<and>
     map node_packet (by_key (cn_queue cn')) = [flagged 2]"
proof -
  obtain q e ns where q: "enqueue_all empty_queue [(flagged 0, 7), (flagged 1, 7), (flagged 2, 1800000000000000000)] idle_env = Inr (q, e)"
    "fifo_inv q" "by_key q = ns" "map node_packet ns = [flagged 0, flagged 1, flagged 2]"
    "map qn_time ns = [7, 7, 1800000000000000000]"
    using filled_queue[of "[(flagged 0, 7), (flagged 1, 7), (flagged 2, 1800000000000000000)]"] by auto
  obtain a b c where ns: "ns = [a, b, c]" using q(4) by (auto simp: map_eq_Cons_conv)
  have abc: "node_packet a = flagged 0" "node_packet b = flagged 1" "node_packet c = flagged 2"
    "qn_time a = 7" "qn_time b = 7" "qn_time c = 1800000000000000000"
    using q(4,5) by (simp_all add: ns)
  let ?cn = "open_conn\<lparr>cn_queue := q\<rparr>"
  have "blink_ready ?cn" by (simp add: blink_ready_def open_conn_def zero_conn_def)
  moreover have "\<forall>n \<in> set ns. packet_ok (node_packet n)" by (simp add: ns abc flagged_def packet_ok_def ping_def)
  ultimately obtain k cn' e' where r: "send_due ?cn idle_env = Inr (cn', e')" "k \<le> length ns"
    "\<forall>i < k. qn_time (ns ! i) < reading idle_env i" "k < length ns \<longrightarrow> reading idle_env k \<le> qn_time (ns ! k)"
    "sends e' = sends idle_env @ map (sent_event \<circ> node_packet) (take k ns)" "by_key (cn_queue cn') = drop k ns"
    using due_packets_sent[of ?cn ns idle_env] q(2,3) idle_env_ok by auto
  have rd: "reading idle_env i = 1700000000000000000" for i by (simp add: reading_def idle_env_def)
  have "k \<noteq> i" if "i = 0 \<or> i = 1" for i
  proof
    assume "k = i"
    then show False using r(4) that by (auto simp: ns abc rd)
  qed
  then have "k \<noteq> 0" "k \<noteq> 1" by blast+
  moreover have "k \<noteq> 3"
  proof
    assume "k = 3"
    then have "qn_time (ns ! 2) < reading idle_env 2" using r(3) by auto
    then show False by (simp add: ns abc rd)
  qed
  ultimately have "k = 2" using r(2) by (simp add: ns)
  moreover have "sends idle_env = []" by (simp add: sends_def idle_env_def)
  ultimately show ?thesis using q(1) r(1,5,6) by (auto simp: ns abc eval_nat_numeral)
qed

end
