(* ===== verification/Commands_Props.thy ===== *)
theory Commands_Props
  imports Dispatch Markov_Props
begin

text \<open>
  The command interpreter: the search in the table, the trimming of a line, the setting commands
  end to end, and the reading of configuration files line by line.
\<close>

section \<open>The table\<close>

lemma find_index_bounds: "find_index k cs cmd = - 1 \<or> k \<le> find_index k cs cmd \<and> find_index k cs cmd < k + int (length cs)"
  by (induction cs arbitrary: k) (auto, fastforce+)

lemma find_index_hit:
  assumes "i < length cs" "starts_with (fst (cs ! i)) cmd" "\<forall>j < i. \<not> starts_with (fst (cs ! j)) cmd"
  shows "find_index k cs cmd = k + int i"
  using assms
proof (induction cs arbitrary: k i)
  case (Cons c cs)
  show ?case
  proof (cases i)
    case (Suc i')
    have "\<not> starts_with (fst c) cmd" using Cons.prems(3) Suc by auto
    moreover have "find_index (k + 1) cs cmd = k + 1 + int i'"
      using Cons.prems Suc by (intro Cons.IH) auto
    ultimately show ?thesis using Suc by simp
  qed (use Cons.prems in simp)
qed simp

lemma find_index_none: "(\<forall>c \<in> set cs. \<not> starts_with (fst c) cmd) \<Longrightarrow> find_index k cs cmd = - 1"
  by (induction cs arbitrary: k) auto

text \<open>No name begins another.\<close>

definition prefix_free :: "(string \<times> 'a) list \<Rightarrow> bool" where
  "prefix_free cs \<longleftrightarrow> list_all (\<lambda>i. list_all (\<lambda>j. i = j \<or> \<not> starts_with (fst (cs ! i)) (fst (cs ! j))) [0..<length cs]) [0..<length cs]"

lemma starts_with_iff: "starts_with tag cmd \<longleftrightarrow> (\<exists>rest. cmd = tag @ rest)"
  by (metis append_eq_conv_conj append_take_drop_id starts_with_def)

lemma two_prefixes: "starts_with a cmd \<Longrightarrow> starts_with b cmd \<Longrightarrow> starts_with a b \<or> starts_with b a"
  unfolding starts_with_iff by (metis append_eq_append_conv2)

lemma commandlist_prefix_free: "prefix_free commandlist"
  by code_simp

lemma prefix_free_unique:
  assumes "prefix_free cs" "i < length cs" "j < length cs" "starts_with (fst (cs ! i)) cmd" "starts_with (fst (cs ! j)) cmd"
  shows "i = j"
proof -
  have "a = b" if "a < length cs" "b < length cs" "starts_with (fst (cs ! a)) (fst (cs ! b))" for a b
    using assms(1) that by (force simp: prefix_free_def list_all_iff)
  then show ?thesis using assms(2,3) two_prefixes[OF assms(4,5)] by metis
qed

section \<open>A line\<close>

lemma trim_end_blank: "is_blank c \<Longrightarrow> trim_end (s @ [c]) = trim_end s"
  by (simp add: trim_end_def)

lemma trim_end_id: "s = [] \<or> \<not> is_blank (last s) \<Longrightarrow> trim_end s = s"
  by (cases s rule: rev_cases) (simp_all add: trim_end_def)

lemma newline_blank [simp]: "is_blank NL"
  by (simp add: is_blank_def NL_def)

text \<open>The newline at the end of a line does not matter.\<close>

lemma execute_newline: "execute_with load sy cn (- 1) (l @ [NL]) e = execute_with load sy cn (- 1) l e"
proof (cases "\<forall>c \<in> set l. is_blank c")
  case True
  then have "dropWhile is_blank (l @ [NL]) = []" "dropWhile is_blank l = []" by simp_all
  then show ?thesis by (simp add: execute_with_def trim_end_def Let_def del: dropWhile_eq_Nil_conv)
next
  case False
  then have "takeWhile is_blank (l @ [NL]) = takeWhile is_blank l"
    "dropWhile is_blank (l @ [NL]) = dropWhile is_blank l @ [NL]"
    by (auto simp: takeWhile_append1 dropWhile_append1)
  then show ?thesis by (simp add: execute_with_def trim_end_blank)
qed

section \<open>Setting commands\<close>

lemma set_wire_values_blank:
  "set_wire_values tag both before (CHR '' '' # s) mk = set_wire_values tag both (CHR '' '' # before) s mk"
  by (subst (1 2) set_wire_values.simps) (simp add: is_blank_def Let_def)

text \<open>The commands that set wire values, with the value and the flags they set.\<close>

fun setting_of :: "command \<Rightarrow> (tag \<times> int) option" where
  "setting_of SetLoss = Some (LOSS, 0)"
| "setting_of SetBurstyLoss = Some (BURSTYLOSS, 0)"
| "setting_of SetDelay = Some (DELAY, 0)"
| "setting_of SetDuplicates = Some (DUP, 0)"
| "setting_of SetBandwidth = Some (BANDWIDTH, 0)"
| "setting_of SetSpeed = Some (SPEED, 0)"
| "setting_of SetNoise = Some (NOISE, 0)"
| "setting_of SetMTU = Some (MTU, WIRE_BIDIRECTIONAL)"
| "setting_of SetChanbufsize = Some (CHANBUFSIZE, WIRE_BIDIRECTIONAL)"
| "setting_of _ = None"

lemma setting_command_run:
  "setting_of c = Some (tag, flags) \<Longrightarrow> run_command load c cn fd before arg e = set_wire cn tag before arg flags e"
  by (cases c)
    (auto simp: setLoss_def setBurstyLoss_def setDelay_def setDuplicates_def setBandwidth_def
      setSpeed_def setNoise_def setMTU_def setChanbufsize_def)

text \<open>Names begin with a letter.\<close>

lemma command_names:
  assumes "i < length commandlist" "commandlist ! i = (name, c, w)"
  shows "name \<noteq> []" "\<not> is_blank (hd name)" "hd name \<noteq> CHR ''#''"
proof -
  have "list_all (\<lambda>(n, _). n \<noteq> [] \<and> \<not> is_blank (hd n) \<and> hd n \<noteq> CHR ''#'') commandlist" by code_simp
  moreover have "(name, c, w) \<in> set commandlist" using assms by (metis nth_mem)
  ultimately show "name \<noteq> []" "\<not> is_blank (hd name)" "hd name \<noteq> CHR ''#''" by (auto simp: list_all_iff)
qed

lemma settings_end: "xs \<noteq> [] \<Longrightarrow> last (print_settings xs) = CHR '']''"
proof (induction xs)
  case (Cons x xs)
  show ?case
  proof (cases "xs = []")
    case True
    then show ?thesis by (simp add: print_setting_def print_argument_def)
  next
    case False
    then have "print_settings xs \<noteq> []" by (cases xs) simp_all
    then show ?thesis using Cons False by simp
  qed
qed simp

lemma find_command:
  assumes "i < length commandlist" "fst (commandlist ! i) = name"
  shows "findCommandIndex (name @ rest) = int i"
proof -
  have s: "starts_with (fst (commandlist ! i)) (name @ rest)" using assms(2) by (simp add: starts_with_def)
  have "\<not> starts_with (fst (commandlist ! j)) (name @ rest)" if "j < i" for j
    using prefix_free_unique[OF commandlist_prefix_free assms(1) _ s, of j] that assms(1) by auto
  then show ?thesis using find_index_hit[OF assms(1) s, of 0] by (simp add: findCommandIndex_def)
qed

lemma rbind_triple: "rbind r (\<lambda>(a, b, c). Inr (a, b, c)) = r"
  by (cases r) auto

lemma rbind_id [simp]: "rbind r Inr = r"
  by (cases r) auto

lemma invoke_found:
  assumes "i < length commandlist" "commandlist ! i = (name, com, False)"
    and "\<forall>c \<in> set blanks. c = CHR '' '' \<or> c = CHR 0x09" "arg = [] \<or> hd arg \<noteq> CHR '' '' \<and> hd arg \<noteq> CHR 0x09"
  shows "invoke load before (name @ blanks @ arg) cn fd e = run_command load com cn fd (rev (name @ blanks) @ before) arg e"
proof -
  let ?blank = "\<lambda>c. c = CHR '' '' \<or> c = CHR 0x09"
  have "findCommandIndex (name @ blanks @ arg) = int i" using find_command[of i name "blanks @ arg"] assms(1,2) by simp
  moreover have "rd commandlist (int i) = Inr (name, com, False)" using assms(1,2) by (simp add: rd_def)
  moreover have "takeWhile ?blank arg = []" "dropWhile ?blank arg = arg" using assms(4) by (cases arg; simp)+
  then have "takeWhile ?blank (blanks @ arg) = blanks" "dropWhile ?blank (blanks @ arg) = arg"
    using assms(3) by (simp_all add: takeWhile_append2 dropWhile_append2)
  moreover have "drop (length name) (name @ blanks @ arg) = blanks @ arg" by simp
  ultimately show ?thesis
    unfolding invoke_def Let_def by (simp only: framed_def rbind_Inr prod.case rbind_triple) simp
qed

lemma invoke_setting:
  assumes "i < length commandlist" "commandlist ! i = (name, c, False)" "setting_of c = Some (tag, flags)"
    and "xs \<noteq> []" "nodes_ok (cn_markov cn)" "\<forall>x \<in> set xs. int (st_node x) \<le> INT_MAX"
  shows "invoke load before (name @ print_settings xs) cn fd e =
    Inr (0, cn\<lparr>cn_markov := fold (apply_setting tag (flags AND WIRE_BIDIRECTIONAL \<noteq> 0))
        (takeWhile (\<lambda>x. int (st_node x) < mk_nodes_count (cn_markov cn)) xs) (cn_markov cn)\<rparr>, e)"
proof -
  obtain y ys where xs: "xs = y # ys" using assms(4) by (cases xs) auto
  obtain d ds where start: "print_setting y = d # ds" "\<not> is_blank d" using setting_start by blast
  let ?arg = "d # ds @ print_settings ys"
  have ps: "print_settings xs = CHR '' '' # ?arg" using xs start by simp
  have "\<forall>c \<in> set '' ''. c = CHR '' '' \<or> c = CHR 0x09" "?arg = [] \<or> hd ?arg \<noteq> CHR '' '' \<and> hd ?arg \<noteq> CHR 0x09"
    using start(2) by (simp_all add: is_blank_def)
  from invoke_found[OF assms(1,2) this, of load before cn fd e]
  have run: "invoke load before (name @ print_settings xs) cn fd e =
      set_wire cn tag (CHR '' '' # rev name @ before) ?arg flags e"
    by (simp only: setting_command_run[OF assms(3)] ps) simp
  have set: "setWireValue (cn_markov cn) tag (CHR '' '' # rev name @ before) (Some ?arg) flags =
      Inr (fold (apply_setting tag (flags AND WIRE_BIDIRECTIONAL \<noteq> 0))
        (takeWhile (\<lambda>x. int (st_node x) < mk_nodes_count (cn_markov cn)) xs) (cn_markov cn))"
    using settings_read[OF assms(5,6), of tag "flags AND WIRE_BIDIRECTIONAL \<noteq> 0" "rev name @ before"]
    by (simp only: setWireValue_def ps set_wire_values_blank option.case)
  show ?thesis unfolding run set_wire_def set by simp
qed

lemma execute_setting:
  assumes "i < length commandlist" "commandlist ! i = (name, c, False)" "setting_of c = Some (tag, flags)"
    and "xs \<noteq> []" "nodes_ok (cn_markov cn)" "\<forall>x \<in> set xs. int (st_node x) \<le> INT_MAX"
  shows "executeCommand depth sy cn fd (name @ print_settings xs) e =
    Inr (0, cn\<lparr>cn_markov := fold (apply_setting tag (flags AND WIRE_BIDIRECTIONAL \<noteq> 0))
        (takeWhile (\<lambda>x. int (st_node x) < mk_nodes_count (cn_markov cn)) xs) (cn_markov cn)\<rparr>,
      if 0 \<le> fd then put_mgmt fd ''1000 Success'' e else e)"
proof -
  note name = command_names[OF assms(1,2)]
  have ps: "print_settings xs \<noteq> []" using assms(4) by (cases xs) simp_all
  let ?cn = "cn\<lparr>cn_markov := fold (apply_setting tag (flags AND WIRE_BIDIRECTIONAL \<noteq> 0))
        (takeWhile (\<lambda>x. int (st_node x) < mk_nodes_count (cn_markov cn)) xs) (cn_markov cn)\<rparr>"
  have "last (name @ print_settings xs) = CHR '']''" using settings_end[OF assms(4)] ps by simp
  then have "trim_end (name @ print_settings xs) = name @ print_settings xs"
    using name by (intro trim_end_id) (simp add: is_blank_def)
  moreover have "takeWhile is_blank (name @ print_settings xs) = []" "dropWhile is_blank (name @ print_settings xs) = name @ print_settings xs"
    using name by (cases name; simp)+
  moreover have "invoke load b (name @ print_settings xs) cn fd e = Inr (0, ?cn, e)" for load b
    by (rule invoke_setting[OF assms])
  ultimately show ?thesis
    using name by (simp add: executeCommand_def execute_with_def status_line_def Let_def)
qed

section \<open>Configuration files\<close>

lemma fgets_line:
  "NL \<notin> set l \<Longrightarrow> length l < n \<Longrightarrow> fgets n (l @ NL # r) = l @ [NL]"
  by (induction l arbitrary: n) (auto simp: neq_Nil_conv gr0_conv_Suc Suc_less_eq2)

lemma fgets_all_lines:
  assumes "\<forall>l \<in> set ls. NL \<notin> set l \<and> length l < 127"
  shows "fgets_all (concat (map (\<lambda>l. l @ [NL]) ls)) = map (\<lambda>l. l @ [NL]) ls"
  using assms
proof (induction ls)
  case Nil
  then show ?case by (simp add: fgets_all.simps)
next
  case (Cons l ls)
  have "fgets (MNGM_CMD_MAX_LEN - 1) (l @ NL # concat (map (\<lambda>l. l @ [NL]) ls)) = l @ [NL]"
    using Cons.prems by (intro fgets_line) (simp_all add: MNGM_CMD_MAX_LEN_def)
  then show ?case using Cons by (subst fgets_all.simps) (simp add: Let_def)
qed

lemma before_nul_id: "NUL \<notin> set s \<Longrightarrow> before_nul s = s"
  by (simp add: before_nul_def) (metis takeWhile_eq_all_conv)

lemma each_cong: "(\<And>x s. x \<in> set xs \<Longrightarrow> f x s = g x s) \<Longrightarrow> each f xs s = each g xs s"
  by (induction xs arbitrary: s) (auto intro: rbind_cong)

lemma each_map: "each f (map h xs) s = each (\<lambda>x. f (h x)) xs s"
  by (induction xs arbitrary: s) (auto intro: rbind_cong)

end
