(* ===== verification/Commands_Spec.thy ===== *)
theory Commands_Spec
  imports Commands_Props Clients_Spec
begin

text \<open>
  The contract of the management commands: which command a line is, what lines have no effect, what
  the setting commands do to the chain, what a configuration file amounts to.
\<close>

section \<open>A concrete system\<close>

definition plain_system :: system where
  "plain_system = \<lparr>sy_strerror = (\<lambda>_. ''error''), sy_files = (\<lambda>p. if p = ''/etc/wf.rc''
     then Some (''loss LR5+2KN[1]'' @ NL # ''# end'' @ [NL]) else None), sy_version = ''1.0'',
     sy_pid = 4242, sy_ethbufsize = 9234\<rparr>"

definition chain_conn :: conn where
  "chain_conn = two_clients\<lparr>cn_markov := two_nodes\<rparr>"

section \<open>Properties\<close>

text \<open>C30: the first match in table order is the only one: a line is the command whose name it begins
  with, and no other name of the table begins it; the order of the table does not matter.\<close>

theorem command_unique:
  assumes "i < length commandlist"
  shows "findCommandIndex cmd = int i \<longleftrightarrow> starts_with (fst (commandlist ! i)) cmd"
proof
  assume f: "findCommandIndex cmd = int i"
  have "\<exists>c \<in> set commandlist. starts_with (fst c) cmd"
    using find_index_none[of commandlist cmd 0] f by (auto simp: findCommandIndex_def)
  then obtain j where j: "j < length commandlist" "starts_with (fst (commandlist ! j)) cmd"
    by (metis in_set_conv_nth)
  then have "findCommandIndex cmd = int j"
    using find_command[OF j(1) refl, of "drop (length (fst (commandlist ! j))) cmd"]
    by (simp add: starts_with_def) (metis append_take_drop_id)
  then show "starts_with (fst (commandlist ! i)) cmd" using f j by simp
next
  assume "starts_with (fst (commandlist ! i)) cmd"
  then obtain rest where "cmd = fst (commandlist ! i) @ rest" by (auto simp: starts_with_iff)
  then show "findCommandIndex cmd = int i" using find_command[OF assms refl] by simp
qed

theorem command_unique_witness: "findCommandIndex ''lossless'' = 3"
  using command_unique[of 3 "''lossless''"] by (simp add: commandlist_def starts_with_def eval_nat_numeral)

lemma hd_trim_end: "s \<noteq> [] \<Longrightarrow> \<not> is_blank (hd s) \<Longrightarrow> trim_end s \<noteq> [] \<and> hd (trim_end s) = hd s"
proof -
  assume s: "s \<noteq> []" and nb: "\<not> is_blank (hd s)"
  have "\<exists>c \<in> set s. \<not> is_blank c" using s nb by (intro bexI[of _ "hd s"] hd_in_set)
  then have "dropWhile is_blank (rev s) \<noteq> []" by (simp add: dropWhile_eq_Nil_conv)
  moreover have "rev s = rev (tl s) @ [hd s]" using s by (cases s) simp_all
  ultimately show ?thesis using nb by (simp add: trim_end_def dropWhile_append)
qed

lemma listed_names: "map fst commandlist = [''help'', ''load'', ''showinfo'', ''loss'', ''lostburst'', ''delay'', ''dup'', ''bandwidth'', ''speed'',
      ''noise'', ''mtu'', ''chanbufsize'', ''fifo'', ''shutdown'', ''logout'', ''markov-numnodes'', ''markov-setnode'',
      ''markov-name'', ''markov-time'', ''setedge'', ''showedges'', ''showcurrent'', ''markov-debug'']"
  by (simp add: commandlist_def)

text \<open>C29: a line that is empty or whose first character that is not blank is \<open>#\<close> does nothing and is not
  answered; a line that begins with no command name changes nothing but is answered, to a
  connected client, with the code 1038 of \<open>ENOSYS\<close> and its text.\<close>

theorem harmless_lines:
  shows "(dropWhile is_blank line = [] \<or> hd (dropWhile is_blank line) = CHR ''#'' \<longrightarrow>
      executeCommand depth sy cn fd line e = Inr (38, cn, e)) \<and>
    (dropWhile is_blank line \<noteq> [] \<and> hd (dropWhile is_blank line) \<noteq> CHR ''#'' \<and>
       (\<forall>name \<in> set [''help'', ''load'', ''showinfo'', ''loss'', ''lostburst'', ''delay'', ''dup'', ''bandwidth'', ''speed'',
      ''noise'', ''mtu'', ''chanbufsize'', ''fifo'', ''shutdown'', ''logout'', ''markov-numnodes'', ''markov-setnode'',
      ''markov-name'', ''markov-time'', ''setedge'', ''showedges'', ''showcurrent'', ''markov-debug''].
          \<not> starts_with name (trim_end (dropWhile is_blank line))) \<longrightarrow>
      executeCommand depth sy cn fd line e =
        Inr (38, cn, if 0 \<le> fd then put_mgmt fd (''1038 '' @ sy_strerror sy 38) e else e))"
proof (intro conjI impI)
  let ?cmd = "dropWhile is_blank line"
  have hd: "trim_end ?cmd \<noteq> [] \<and> hd (trim_end ?cmd) = hd ?cmd" if "?cmd \<noteq> []"
    using hd_trim_end[OF that hd_dropWhile[OF that]] .
  assume "?cmd = [] \<or> hd ?cmd = CHR ''#''"
  then have "\<not> (trim_end ?cmd \<noteq> [] \<and> hd (trim_end ?cmd) \<noteq> CHR ''#'')"
    using hd by (cases "?cmd = []") (simp_all only: trim_end_def rev.simps dropWhile.simps, auto)
  then show "executeCommand depth sy cn fd line e = Inr (38, cn, e)"
    by (simp only: executeCommand_def execute_with_def Let_def if_False ENOSYS_def)
next
  let ?cmd = "dropWhile is_blank line"
  assume a: "?cmd \<noteq> [] \<and> hd ?cmd \<noteq> CHR ''#'' \<and> (\<forall>name \<in> set [''help'', ''load'', ''showinfo'', ''loss'', ''lostburst'', ''delay'', ''dup'', ''bandwidth'', ''speed'',
      ''noise'', ''mtu'', ''chanbufsize'', ''fifo'', ''shutdown'', ''logout'', ''markov-numnodes'', ''markov-setnode'',
      ''markov-name'', ''markov-time'', ''setedge'', ''showedges'', ''showcurrent'', ''markov-debug'']. \<not> starts_with name (trim_end ?cmd))"
  then have hd: "trim_end ?cmd \<noteq> [] \<and> hd (trim_end ?cmd) \<noteq> CHR ''#''"
    using hd_trim_end[of ?cmd] hd_dropWhile[of is_blank line] by simp
  have "\<forall>c \<in> set commandlist. \<not> starts_with (fst c) (trim_end ?cmd)"
    using a unfolding listed_names[symmetric] by simp
  then have "findCommandIndex (trim_end ?cmd) = - 1" by (simp add: findCommandIndex_def find_index_none)
  then have "invoke load b (trim_end ?cmd) cn fd e = Inr (38, cn, e)" for load b by (simp add: invoke_def ENOSYS_def)
  moreover have "status_line sy 38 = ''1038 '' @ sy_strerror sy 38"
  proof -
    have "print_zero_padded 3 38 = ''038''" by code_simp
    then show ?thesis by (simp add: status_line_def)
  qed
  ultimately show "executeCommand depth sy cn fd line e =
      Inr (38, cn, if 0 \<le> fd then put_mgmt fd (''1038 '' @ sy_strerror sy 38) e else e)"
    using hd by (simp add: executeCommand_def execute_with_def Let_def)
qed

theorem harmless_lines_witness:
  "executeCommand 0 plain_system chain_conn 7 ''  # loss 5'' idle_env = Inr (38, chain_conn, idle_env) \<and>
   executeCommand 0 plain_system chain_conn 7 '' los 5'' idle_env =
     Inr (38, chain_conn, put_mgmt 7 ''1038 error'' idle_env)"
proof -
  have "hd (dropWhile is_blank ''  # loss 5'') = CHR ''#''" by (simp add: is_blank_def)
  moreover have "dropWhile is_blank '' los 5'' = ''los 5''" "trim_end ''los 5'' = ''los 5''"
    by (simp_all add: is_blank_def trim_end_def)
  moreover have "\<not> starts_with name ''los 5''" if "name \<in> set [''help'', ''load'', ''showinfo'', ''loss'', ''lostburst'', ''delay'', ''dup'', ''bandwidth'', ''speed'',
      ''noise'', ''mtu'', ''chanbufsize'', ''fifo'', ''shutdown'', ''logout'', ''markov-numnodes'', ''markov-setnode'',
      ''markov-name'', ''markov-time'', ''setedge'', ''showedges'', ''showcurrent'', ''markov-debug'']" for name
    using that by (auto simp: starts_with_def)
  ultimately show ?thesis
    using harmless_lines[of "''  # loss 5''" 0 plain_system chain_conn 7 idle_env]
      harmless_lines[of "'' los 5''" 0 plain_system chain_conn 7 idle_env]
    by (simp add: plain_system_def)
qed

lemma setting_command:
  assumes "(name, tag, both) \<in> {(''loss'', LOSS, False), (''lostburst'', BURSTYLOSS, False), (''delay'', DELAY, False),
      (''dup'', DUP, False), (''bandwidth'', BANDWIDTH, False), (''speed'', SPEED, False), (''noise'', NOISE, False),
      (''mtu'', MTU, True), (''chanbufsize'', CHANBUFSIZE, True)}"
  shows "\<exists>i c flags. i < length commandlist \<and> commandlist ! i = (name, c, False) \<and>
    setting_of c = Some (tag, flags) \<and> (flags AND WIRE_BIDIRECTIONAL \<noteq> 0) = both"
proof -
  have "\<exists>c flags. (name, c, False) \<in> set commandlist \<and> setting_of c = Some (tag, flags) \<and>
      (flags AND WIRE_BIDIRECTIONAL \<noteq> 0) = both"
    using assms
    by (auto simp: commandlist_def WIRE_BIDIRECTIONAL_def ex_disj_distrib conj_disj_distribR)
  then show ?thesis by (metis in_set_conv_nth)
qed

text \<open>C13: the commands \<open>loss\<close>, \<open>lostburst\<close>, \<open>delay\<close>, \<open>dup\<close>, \<open>bandwidth\<close>, \<open>speed\<close>, \<open>noise\<close>, \<open>mtu\<close> and
  \<open>chanbufsize\<close>, with settings in the printed syntax, each set the wire value of that name and touch
  nothing else; \<open>mtu\<close> and \<open>chanbufsize\<close> without a direction set both directions. They are answered
  with success.\<close>

theorem setting_commands_apply:
  assumes "(name, tag, both) \<in> {(''loss'', LOSS, False), (''lostburst'', BURSTYLOSS, False), (''delay'', DELAY, False),
      (''dup'', DUP, False), (''bandwidth'', BANDWIDTH, False), (''speed'', SPEED, False), (''noise'', NOISE, False),
      (''mtu'', MTU, True), (''chanbufsize'', CHANBUFSIZE, True)}"
    and "xs \<noteq> []" "nodes_ok (cn_markov cn)" "\<forall>x \<in> set xs. int (st_node x) \<le> INT_MAX"
  shows "executeCommand depth sy cn fd (name @ print_settings xs) e =
    Inr (0, cn\<lparr>cn_markov := fold (apply_setting tag both)
        (takeWhile (\<lambda>x. int (st_node x) < mk_nodes_count (cn_markov cn)) xs) (cn_markov cn)\<rparr>,
      if 0 \<le> fd then put_mgmt fd ''1000 Success'' e else e)"
proof -
  obtain i c flags where i: "i < length commandlist" "commandlist ! i = (name, c, False)"
    "setting_of c = Some (tag, flags)" and both: "(flags AND WIRE_BIDIRECTIONAL \<noteq> 0) = both"
    using setting_command[OF assms(1)] by blast
  show ?thesis using execute_setting[OF i assms(2-4)] unfolding both .
qed

lemma loss_line:
  "print_setting lossy_second = ''LR5+2KN[1]''" "3 < length commandlist"
  "commandlist ! 3 = (''loss'', SetLoss, False)" "cn_markov chain_conn = two_nodes"
  "int (st_node lossy_second) < mk_nodes_count two_nodes"
  "\<forall>x \<in> set [lossy_second]. int (st_node x) \<le> INT_MAX" "[lossy_second] \<noteq> []"
proof -
  show "print_setting lossy_second = ''LR5+2KN[1]''" by code_simp
  have "int (st_node lossy_second) = 1" by (simp add: lossy_second_def)
  then show "int (st_node lossy_second) < mk_nodes_count two_nodes"
    "\<forall>x \<in> set [lossy_second]. int (st_node x) \<le> INT_MAX" by (simp_all add: two_nodes_ok)
qed (simp_all add: commandlist_def eval_nat_numeral chain_conn_def)

theorem setting_commands_apply_witness:
  "executeCommand 0 plain_system chain_conn 7 ''loss LR5+2KN[1]'' idle_env =
     Inr (0, chain_conn\<lparr>cn_markov := apply_setting LOSS False lossy_second two_nodes\<rparr>, put_mgmt 7 ''1000 Success'' idle_env) \<and>
   executeCommand 0 plain_system chain_conn 7 ''mtu LR5+2KN[1]'' idle_env =
     Inr (0, chain_conn\<lparr>cn_markov := apply_setting MTU True lossy_second two_nodes\<rparr>, put_mgmt 7 ''1000 Success'' idle_env)"
  using setting_commands_apply[of "''loss''" LOSS False "[lossy_second]" chain_conn 0 plain_system 7 idle_env]
    setting_commands_apply[of "''mtu''" MTU True "[lossy_second]" chain_conn 0 plain_system 7 idle_env] loss_line(6)
  by (simp add: loss_line(1,4,5) two_nodes_ok(1))

text \<open>C28: a configuration file whose lines fit the buffer does what its lines do as commands, one after
  the other, without output and without stopping at an error.\<close>

theorem file_is_its_lines:
  assumes "sy_files sy path = Some (concat (map (\<lambda>l. l @ [NL]) ls))"
    and "\<forall>l \<in> set ls. NL \<notin> set l \<and> NUL \<notin> set l \<and> length l < 127"
  shows "loadConfig (Suc depth) sy cn (- 1) path e =
    rbind (each (\<lambda>l (cn, e). rbind (executeCommand depth sy cn (- 1) l e) (\<lambda>(ret, cn, e). Inr (cn, e))) ls (cn, e))
      (\<lambda>(cn, e). Inr (0, cn, e))"
proof -
  have lines: "fgets_all (concat (map (\<lambda>l. l @ [NL]) ls)) = map (\<lambda>l. l @ [NL]) ls"
    using assms(2) by (intro fgets_all_lines) simp
  have "before_nul (l @ [NL]) = l @ [NL]" if "l \<in> set ls" for l
    using assms(2) that by (intro before_nul_id) (auto simp: NL_def NUL_def)
  then show ?thesis
    by (simp add: assms(1) lines each_map executeCommand_def)
      (rule arg_cong[where f = "\<lambda>r. rbind r (\<lambda>(cn, e). Inr (0, cn, e))"],
       rule each_cong, simp add: execute_newline split: prod.splits)
qed

theorem file_is_its_lines_witness:
  "loadConfig 1 plain_system chain_conn (- 1) ''/etc/wf.rc'' idle_env =
     Inr (0, chain_conn\<lparr>cn_markov := apply_setting LOSS False lossy_second two_nodes\<rparr>, idle_env)"
proof -
  have f1: "sy_files plain_system ''/etc/wf.rc'' = Some (concat (map (\<lambda>l. l @ [NL]) [''loss LR5+2KN[1]'', ''# end'']))"
    by (simp add: plain_system_def)
  have f2: "\<forall>l \<in> set [''loss LR5+2KN[1]'', ''# end'']. NL \<notin> set l \<and> NUL \<notin> set l \<and> length l < 127"
    by (simp add: NL_def NUL_def)
  have r1: "executeCommand 0 plain_system chain_conn (- 1) ''loss LR5+2KN[1]'' idle_env =
      Inr (0, chain_conn\<lparr>cn_markov := apply_setting LOSS False lossy_second two_nodes\<rparr>, idle_env)"
    using execute_setting[OF loss_line(2,3) setting_of.simps(1) loss_line(7) _ loss_line(6), of chain_conn 0 plain_system "- 1" idle_env]
    by (simp add: loss_line(1,4,5) two_nodes_ok(1))
  have r2: "executeCommand 0 plain_system cn (- 1) ''# end'' e = Inr (ENOSYS, cn, e)" for cn e
    by (simp add: executeCommand_def execute_with_def is_blank_def trim_end_def Let_def)
  show ?thesis
    using file_is_its_lines[OF f1 f2, of 0 chain_conn idle_env] by (simp add: r1 r2 del: loadConfig.simps)
qed

end
