(* ===== verification/Conn_Inv.thy ===== *)
theory Conn_Inv
  imports Wire_Order Clients_Props Markov_Props
begin

text \<open>
  The well-formed connection: queue, chain, current node, client table and blink buffer. It is what
  opening a connection establishes and what the packets and timers of the packet thread keep.
\<close>

section \<open>The invariant\<close>

definition packets_ok :: "queue \<Rightarrow> bool" where
  "packets_ok q \<longleftrightarrow> (\<forall>n \<in># queue_nodes q. \<exists>p. qn_packet n = Some p \<and> packet_ok p)"

definition chain_at_node :: "markov \<Rightarrow> bool" where
  "chain_at_node mk \<longleftrightarrow> chain_ok mk \<and> in_chain mk (mk_current_node mk)"

definition conn_ok :: "conn \<Rightarrow> bool" where
  "conn_ok cn \<longleftrightarrow> queue_inv (cn_queue cn) \<and> packets_ok (cn_queue cn) \<and> chain_at_node (cn_markov cn) \<and>
     table_ok cn \<and> blink_ready cn"

lemma conn_okD:
  assumes "conn_ok cn"
  shows "queue_inv (cn_queue cn)" "packets_ok (cn_queue cn)" "chain_at_node (cn_markov cn)" "table_ok cn" "blink_ready cn"
  using assms by (simp_all add: conn_ok_def)

text \<open>Updates of the other fields keep it.\<close>

lemma conn_ok_same: "same_wires cn cn' \<Longrightarrow> conn_ok cn' = conn_ok cn"
  by (simp add: same_wires_def conn_ok_def table_ok_def blink_ready_def Let_def)

lemma conn_ok_queue: "queue_inv q \<Longrightarrow> packets_ok q \<Longrightarrow> conn_ok cn \<Longrightarrow> conn_ok (cn\<lparr>cn_queue := q\<rparr>)"
  by (simp add: conn_ok_def table_ok_def blink_ready_def Let_def)

lemma same_wires_bursty: "same_wires cn (set_bursty cn d v)"
  by (simp add: same_wires_def set_bursty_def)

section \<open>Packets\<close>

lemma enqueue_keeps:
  assumes "enqueue q p t e = Inr (q', e')" "queue_inv q" "packets_ok q" "packet_ok p" "env_ok e"
  shows "queue_inv q' \<and> packets_ok q' \<and> same_oracles e e'"
proof -
  have "unat (q_size q) < 99" using enqueue_returns_size[OF assms(2,5,1)] .
  then have "queue_inv q'" "quiet e e'" "queue_nodes q' = add_mset (new_node q p t) (queue_nodes q)"
    using enqueue_correct[OF assms(2,5), of p t] assms(1) by auto
  then show ?thesis
    using assms(3,4) by (auto simp: packets_ok_def new_node_def quiet_def same_oracles_def split: prod.splits)
qed

lemma dequeue_keeps:
  assumes "dequeue q e = Inr (Some p, q', e')" "queue_inv q" "packets_ok q" "q_size q \<noteq> 0"
  shows "queue_inv q' \<and> packets_ok q' \<and> packet_ok p \<and> same_oracles e e'"
proof -
  have "queue_nodes q \<noteq> {#}" using assms(4) size_queue_nodes[OF assms(2)] by (auto simp: unat_eq_zero)
  then obtain n where "qn_packet n = Some p" "queue_inv q'" "queue_nodes q = add_mset n (queue_nodes q')" "e' = release e"
    using dequeue_correct[OF assms(2), of e] assms(1) by auto
  then show ?thesis using assms(3) by (auto simp: packets_ok_def same_oracles_def)
qed

lemma sendPacket_keeps:
  assumes "sendPacket cn p e = Inr (cn', e')" "packet_ok p" "conn_ok cn"
  shows "conn_ok cn' \<and> same_oracles e e'"
proof -
  have b: "blink_ready cn'"
    using sendPacket_returns[OF assms(2) conn_okD(5)[OF assms(3)], of e] assms(1) by auto
  have "cn_markov cn' = cn_markov cn \<and> cn_management cn' = cn_management cn"
    using assms(1) by (auto simp: sendPacket_def send_blink_def Let_def rbind_eq_Inr syscall_def split: if_splits)
  then show ?thesis
    using sendPacket_sends[OF assms(1,2)] assms(3) b by (simp add: conn_ok_def table_ok_def Let_def)
qed

lemma handle_copy_keeps:
  assumes "handle_copy m p cn e = Inr (go, cn', e')" "packet_ok p" "conn_ok cn" "env_ok e"
  shows "conn_ok cn' \<and> same_oracles e e'"
  using handle_copy_outcome[OF assms(1,2)]
proof (elim disjE exE conjE)
  assume "cn' = cn" "calm e e'"
  then show ?thesis using assms(3) by (simp add: calm_def)
next
  fix cn1 p' e1 t q e2
  assume r: "prepared p p'" "same_wires cn cn1" "calm e e1" "enqueue (cn_queue cn) p' t e1 = Inr (q, e2)"
    "setQueueTimer q e2 = Inr e'" "cn' = cn1\<lparr>cn_queue := q\<rparr>"
  have "conn_ok cn1" using conn_ok_same[OF r(2)] assms(3) by simp
  moreover have "queue_inv q \<and> packets_ok q \<and> same_oracles e1 e2"
    using enqueue_keeps[OF r(4) conn_okD(1,2)[OF assms(3)] prepared_ok[OF r(1) assms(2)] calm_ok[OF r(3) assms(4)]] .
  moreover have "same_oracles e2 e'" using setQueueTimer_trace[OF r(5)] by blast
  ultimately show ?thesis using r(3,6) conn_ok_queue same_oracles_trans unfolding calm_def by blast
next
  fix cn1 p' e1
  assume r: "prepared p p'" "same_wires cn cn1" "calm e e1" "sendPacket cn1 p' e1 = Inr (cn', e')"
  have "conn_ok cn1" using conn_ok_same[OF r(2)] assms(3) by simp
  then show ?thesis
    using sendPacket_keeps[OF r(4) prepared_ok[OF r(1) assms(2)]] r(3) same_oracles_trans unfolding calm_def by blast
qed

lemma handle_copies_keep:
  assumes "handle_copies m p k cn e = Inr (cn', e')" "packet_ok p" "conn_ok cn" "env_ok e"
  shows "conn_ok cn' \<and> same_oracles e e'"
  using assms(1,3,4)
proof (induction k arbitrary: cn e)
  case (Suc k)
  obtain go cn1 e1 where h: "handle_copy m p cn e = Inr (go, cn1, e1)"
    using Suc.prems(1) by (auto simp: rbind_eq_Inr)
  have k: "conn_ok cn1" "same_oracles e e1" using handle_copy_keeps[OF h assms(2) Suc.prems(2,3)] by simp_all
  have "env_ok e1" using same_oracles_ok[OF k(2)] Suc.prems(3) by simp
  show ?case
  proof (cases go)
    case True
    then have "handle_copies m p k cn1 e1 = Inr (cn', e')" using Suc.prems(1) h by simp
    then have "conn_ok cn' \<and> same_oracles e1 e'" by (rule Suc.IH) (fact k(1) \<open>env_ok e1\<close>)+
    then show ?thesis using k(2) same_oracles_trans by blast
  next
    case False
    then show ?thesis using Suc.prems(1) h k by simp
  qed
qed simp

lemma count_duplicates_calm: "count_duplicates m node d n e = Inr (k, e') \<Longrightarrow> calm e e'"
proof (induction m node d n e rule: count_duplicates.induct)
  case (1 m node d n e)
  obtain u e1 where u: "random e = (u, e1)" by fastforce
  obtain dup e2 where w: "wire m node DUP d e1 = Inr (dup, e2)"
    using "1.prems" u by (subst (asm) count_duplicates.simps) (auto simp: rbind_eq_Inr)
  have c: "calm e e2" using calm_random[OF u] calm_wire[OF w] calm_trans by blast
  show ?case
  proof (cases "d_lt u (d_div dup (Fin 100)) \<and> \<not> INT_MAX \<le> n")
    case True
    then have "count_duplicates m node d (n + 1) e2 = Inr (k, e')"
      using "1.prems" u w by (subst (asm) count_duplicates.simps) simp
    then have "calm e2 e'" using "1.IH"[of "(u, e1)" u e1 "(dup, e2)" dup e2] u w True by simp
    then show ?thesis using c calm_trans by blast
  next
    case False
    then have "e' = e2"
      using "1.prems" u w by (subst (asm) count_duplicates.simps) (auto split: if_splits)
    then show ?thesis using c by simp
  qed
qed

lemma loss_keeps:
  assumes "lossHandler m cn p e = Inr (v, cn', e')"
  shows "same_wires cn cn' \<and> calm e e'"
proof -
  obtain node where n: "current_node cn = Inr node" using assms by (auto simp: lossHandler_def rbind_eq_Inr)
  have g: "same_wires cn cn1 \<and> calm e e1" if "gilbert m node d cn e = Inr (cn1, e1)" for d cn1 e1
    using that
    by (auto simp: gilbert_def Let_def rbind_eq_Inr random_eq split: if_splits
        dest!: calm_wire intro: same_wires_bursty calm_trans)
  have w: "calm e e2" if "wire m node t d (e\<lparr>e_rng := s\<rparr>) = Inr (x, e2)" for t d s x e2
    using calm_wire[OF that] calm_trans[OF calm_rng] by blast
  show ?thesis
    using assms n g w
    by (auto simp: lossHandler_def Let_def rbind_eq_Inr random_eq same_wires_bursty split: if_splits)
qed

lemma handlePacket_keeps:
  assumes "handlePacket m cn p e = Inr (cn', e')" "packet_ok p" "conn_ok cn" "env_ok e"
  shows "conn_ok cn' \<and> same_oracles e e'"
proof -
  obtain v where v: "mtuHandler cn p = Inr v" using assms(1) by (auto simp: handlePacket_def rbind_eq_Inr)
  show ?thesis
  proof (cases "v = DROP")
    case True
    then show ?thesis using assms(1,3) v by (simp add: handlePacket_def)
  next
    case False
    then obtain w cn1 e1 where l: "lossHandler m cn p e = Inr (w, cn1, e1)"
      using assms(1) v by (auto simp: handlePacket_def rbind_eq_Inr)
    have k: "conn_ok cn1" "calm e e1" using loss_keeps[OF l] conn_ok_same[of cn cn1] assms(3) by simp_all
    show ?thesis
    proof (cases "w = DROP")
      case True
      then show ?thesis using assms(1) v False l k by (simp add: handlePacket_def calm_def)
    next
      case False
      then obtain n e2 where d: "duplicatesHandler m cn1 p e1 = Inr (n, e2)"
        using assms(1) v \<open>v \<noteq> DROP\<close> l by (auto simp: handlePacket_def rbind_eq_Inr)
      have c: "calm e1 e2"
        using d by (auto simp: duplicatesHandler_def rbind_eq_Inr dest: count_duplicates_calm split: if_splits)
      have "handle_copies m p (nat (1 + n)) cn1 e2 = Inr (cn', e')"
        using assms(1) v \<open>v \<noteq> DROP\<close> l False d by (simp add: handlePacket_def split: if_splits)
      moreover have "calm e e2" using k(2) c calm_trans by blast
      ultimately show ?thesis
        using handle_copies_keep[OF _ assms(2) k(1)] calm_ok[OF _ assms(4)] same_oracles_trans
        by (meson calm_def)
    qed
  qed
qed

section \<open>Timers\<close>

lemma calm_oracles: "calm e e' \<Longrightarrow> same_oracles e e'"
  by (simp add: calm_def)

lemma timer_oracles:
  "setTimer fd t e = Inr e' \<Longrightarrow> same_oracles e e'" "disarmTimer fd e = Inr e' \<Longrightarrow> same_oracles e e'"
  by (auto simp: setTimer_def disarmTimer_def syscall_def same_oracles_def Let_def split: if_splits)

lemma send_due_keeps:
  assumes "send_due cn e = Inr (cn', e')" "conn_ok cn"
  shows "conn_ok cn' \<and> same_oracles e e'"
  using assms
proof (induction cn e rule: send_due.induct)
  case (1 cn e)
  show ?case
  proof (cases "0 < q_size (cn_queue cn)")
    case False
    then show ?thesis using "1.prems" by (subst (asm) send_due.simps) simp
  next
    case True
    obtain due now e1 where n: "nextQueueTime (cn_queue cn) = Inr due" "now_ns e = Inr (now, e1)"
      using "1.prems"(1) True by (subst (asm) send_due.simps) (auto simp: rbind_eq_Inr)
    have o1: "same_oracles e e1" using calm_now[OF n(2)] by (rule calm_oracles)
    show ?thesis
    proof (cases "due < now")
      case False
      then show ?thesis using "1.prems" True n o1 by (subst (asm) send_due.simps) simp
    next
      case due: True
      obtain p q e2 cn2 e3 where d: "dequeue (cn_queue cn) e1 = Inr (Some p, q, e2)"
        "sendPacket (cn\<lparr>cn_queue := q\<rparr>) p e2 = Inr (cn2, e3)" "send_due cn2 e3 = Inr (cn', e')"
        using "1.prems"(1) True n due
        by (subst (asm) send_due.simps) (auto simp: rbind_eq_Inr deref_def split: option.splits)
      have k: "queue_inv q" "packets_ok q" "packet_ok p" "same_oracles e1 e2"
        using dequeue_keeps[OF d(1) conn_okD(1,2)[OF "1.prems"(2)]] True by (auto simp: word_gt_0)
      have s: "conn_ok cn2" "same_oracles e2 e3"
        using sendPacket_keeps[OF d(2) k(3) conn_ok_queue[OF k(1,2) "1.prems"(2)]] by simp_all
      have "conn_ok cn' \<and> same_oracles e3 e'"
        using "1.IH"[of due "(now, e1)" now e1 "(Some p, q, e2)" "Some p" "(q, e2)" q e2 p "(cn2, e3)" cn2 e3]
          True n due d s(1) by simp
      then show ?thesis using o1 k(4) s(2) same_oracles_trans by blast
    qed
  qed
qed

lemma queue_timer_keeps:
  assumes "queue_timer cn e = Inr (cn', e')" "conn_ok cn"
  shows "conn_ok cn' \<and> same_oracles e e'"
proof -
  obtain e1 where d: "disarmTimer (q_timerfd (cn_queue cn)) e = Inr e1"
    using assms(1) by (auto simp: queue_timer_def rbind_eq_Inr)
  obtain cn2 e2 where s: "send_due cn e1 = Inr (cn2, e2)" using assms(1) d by (auto simp: queue_timer_def rbind_eq_Inr)
  have r: "cn' = cn2" "e' = e2 \<or> setQueueTimer (cn_queue cn2) e2 = Inr e'"
    using assms(1) d s by (auto simp: queue_timer_def rbind_eq_Inr split: if_splits)
  have "same_oracles e2 e'" using r(2) setQueueTimer_trace by auto
  then show ?thesis
    using r(1) timer_oracles(2)[OF d] send_due_keeps[OF s assms(2)] same_oracles_trans by blast
qed

lemma report_step_oracles: "report_step cn n i e = Inr e' \<Longrightarrow> same_oracles e e'"
  by (auto simp: report_step_def rbind_eq_Inr put_mgmt_def print_mgmt_def syscall_def same_oracles_def split: if_splits)

lemma markovStep_keeps:
  assumes "markovStep cn (mk_current_node (cn_markov cn)) e = Inr (cn', e')" "conn_ok cn"
  shows "conn_ok cn' \<and> same_oracles e e'"
proof -
  have ch: "chain_ok (cn_markov cn)" "in_chain (cn_markov cn) (mk_current_node (cn_markov cn))"
    using conn_okD(3)[OF assms(2)] by (simp_all add: chain_at_node_def)
  obtain n e1 where n: "markov_next (cn_markov cn) (mk_current_node (cn_markov cn)) e = Inr (n, e1)"
    using assms(1) by (auto simp: markovStep_def rbind_eq_Inr)
  have nk: "in_chain (cn_markov cn) n" "e1 = snd (random e)"
    using choose_ok[OF ch, of "d_mul (fst (random e)) (Fin 100)"] n ch(1)
    by (auto simp: markov_next_eq in_chain_def chain_ok_def)
  have cn': "cn' = cn\<lparr>cn_markov := (cn_markov cn)\<lparr>mk_current_node := n\<rparr>\<rparr>"
    using assms(1) n by (auto simp: markovStep_def rbind_eq_Inr)
  have "same_oracles e1 e'"
  proof (cases "mk_current_node (cn_markov cn) = n")
    case True
    then show ?thesis using assms(1) n by (auto simp: markovStep_def rbind_eq_Inr)
  next
    case False
    then have "each (report_step cn n) [0..mg_count (cn_management cn) - 1] e1 = Inr e'"
      using assms(1) n by (auto simp: markovStep_def rbind_eq_Inr)
    then show ?thesis
      by (rule each_keeps) (auto intro: report_step_oracles same_oracles_trans)
  qed
  moreover have "same_oracles e e1" by (simp add: nk(2) random_eq same_oracles_def)
  moreover have "chain_at_node ((cn_markov cn)\<lparr>mk_current_node := n\<rparr>)"
    using ch(1) nk(1) by (auto simp: chain_at_node_def chain_ok_def nodes_ok_def in_chain_def split: option.splits)
  ultimately show ?thesis
    using assms(2) same_oracles_trans by (auto simp: cn' conn_ok_def table_ok_def blink_ready_def Let_def)
qed

section \<open>The thread\<close>

text \<open>Packets as the two sides deliver them are well-formed.\<close>

lemma right_frame_ok: "length data < 2 ^ 64 \<Longrightarrow> packet_ok (right_frame data)"
  by (simp add: packet_ok_def right_frame_def unat_of_nat)

lemma left_packet_keeps:
  assumes "left_packet m ro cn e = Inr (cn', e')" "\<And>p. ro_sent ro = Some p \<Longrightarrow> packet_ok p" "conn_ok cn" "env_ok e"
  shows "conn_ok cn' \<and> same_oracles e e'"
proof -
  obtain p e1 where "ro_sent ro = Some p" "handlePacket m cn p e = Inr (cn', e1)" "e' = packetDestroy p e1"
    using assms(1) by (auto simp: left_packet_def rbind_eq_Inr initialised_def split: option.splits)
  then show ?thesis
    using handlePacket_keeps[of m cn p e] assms(2-4) by (auto simp: packetDestroy_def same_oracles_def)
qed

lemma right_packet_keeps:
  assumes "right_packet m sy ro table cn e = Inr (go, table', cn', e')" "sy_ethbufsize sy < 2 ^ 64" "conn_ok cn" "env_ok e"
  shows "conn_ok cn' \<and> same_oracles e e'"
proof -
  obtain now e1 where n: "now_ns e = Inr (now, e1)" using assms(1) by (auto simp: right_packet_def rbind_eq_Inr)
  have o1: "same_oracles e e1" using calm_now[OF n] by (rule calm_oracles)
  have al: "same_oracles e a" if "alloc e = (ok, a)" for e ok a
    using that by (auto simp: alloc_def Let_def same_oracles_def)
  note body = assms(1)[unfolded right_packet_def n rbind_Inr prod.case]
  show ?thesis
  proof (cases "now < cn_speed_next cn RIGHT_TO_LEFT")
    case True
    then have "cn' = cn" "setTimer (cn_speed_timer cn) (cn_speed_next cn RIGHT_TO_LEFT - now) e1 = Inr e'"
      using body by (simp_all add: rbind_eq_Inr) blast+
    then show ?thesis using timer_oracles(1) o1 same_oracles_trans assms(3) by blast
  next
    case False
    note body1 = body[unfolded if_not_P[OF False]]
    show ?thesis
    proof (cases "ro_received ro")
      case None
      then show ?thesis using body1 o1 assms(3) by simp
    next
      case (Some data)
      have le: "length data \<le> sy_ethbufsize sy" using body1 Some by (simp split: if_splits)
      show ?thesis
      proof (cases "length data \<le> 1")
        case True
        then show ?thesis using body1 Some le o1 assms(3) by simp
      next
        case False
        obtain ok1 a1 where a1: "alloc e1 = (ok1, a1)" by fastforce
        obtain ok2 a2 where a2: "alloc a1 = (ok2, a2)" by fastforce
        have oa: "same_oracles e a1" "same_oracles e a2" using al[OF a1] al[OF a2] o1 same_oracles_trans by blast+
        show ?thesis
        proof (cases "ok1 \<and> ok2")
          case False
          then show ?thesis
            using body1 Some le \<open>\<not> length data \<le> 1\<close> a1 a2 oa assms(3) by (simp split: if_splits)
        next
          case True
          then obtain e2 where h: "handlePacket m cn (right_frame data) a2 = Inr (cn', e2)"
            "e' = packetDestroy (right_frame data) e2"
            using body1 Some le False a1 a2 by (simp add: rbind_eq_Inr) blast
          have "packet_ok (right_frame data)" using le assms(2) by (intro right_frame_ok) simp
          moreover have "env_ok a2" using same_oracles_ok[OF oa(2)] assms(4) by simp
          ultimately show ?thesis
            using handlePacket_keeps[OF h(1) _ assms(3)] h(2) oa(2) same_oracles_trans
            by (auto simp: packetDestroy_def same_oracles_def)
        qed
      qed
    qed
  qed
qed

lemma when_readyE:
  assumes "when_ready i f table cn e = Inr (t', cn', e')"
  obtains "t' = table" "cn' = cn" "e' = e" | "f table cn e = Inr (t', cn', e')"
  using assms by (auto simp: when_ready_def rbind_eq_Inr split: if_splits)

lemma timers_keep:
  assumes "timers table cn e = Inr (table', cn', e')" "conn_ok cn"
  shows "conn_ok cn' \<and> same_oracles e e'"
proof -
  obtain t1 cn1 e1 where q: "when_ready POLL_QUEUE_TIMER (keep_table queue_timer) table cn e = Inr (t1, cn1, e1)"
    using assms(1) by (auto simp: timers_def rbind_eq_Inr)
  obtain t2 cn2 e2 where s: "when_ready POLL_SPEED_TIMER (\<lambda>table cn e.
      rbind (speed_timer table cn e) (\<lambda>(table, e). Inr (table, cn, e))) t1 cn1 e1 = Inr (t2, cn2, e2)"
    using assms(1) q by (auto simp: timers_def rbind_eq_Inr)
  have m: "when_ready POLL_MARKOV_TIMER (keep_table markov_timer) t2 cn2 e2 = Inr (table', cn', e')"
    using assms(1) q s by (simp add: timers_def)
  have k1: "conn_ok cn1 \<and> same_oracles e e1"
    using q by (rule when_readyE) (use assms(2) queue_timer_keeps in \<open>auto simp: keep_table_def rbind_eq_Inr\<close>)
  have k2: "cn2 = cn1 \<and> same_oracles e1 e2"
    using s by (rule when_readyE) (auto simp: rbind_eq_Inr speed_timer_def dest: timer_oracles)
  have k3: "conn_ok cn' \<and> same_oracles e2 e'"
    using m
  proof (rule when_readyE)
    assume "keep_table markov_timer t2 cn2 e2 = Inr (table', cn', e')"
    then obtain e3 where "same_oracles e2 e3" "markovStep cn2 (mk_current_node (cn_markov cn2)) e3 = Inr (cn', e')"
      by (auto simp: keep_table_def rbind_eq_Inr markov_timer_def dest: timer_oracles)
    then show ?thesis using markovStep_keeps k1 k2 same_oracles_trans by blast
  qed (use k1 k2 in simp)
  show ?thesis using k1 k2 k3 same_oracles_trans by blast
qed

text \<open>C8: the work of the packet thread on packets and timers keeps the connection well-formed: the
  queue a heap of well-formed packets with the right counters, the current node inside the chain,
  the client table and the blink buffer in shape.\<close>

theorem packet_work_keeps:
  assumes "conn_ok cn" "env_ok e" "\<And>p. ro_sent ro = Some p \<Longrightarrow> packet_ok p" "sy_ethbufsize sy < 2 ^ 64"
    and "left_packet m ro cn e = Inr (cn', e') \<or> right_packet m sy ro table cn e = Inr (go, table', cn', e') \<or>
      timers table cn e = Inr (table', cn', e')"
  shows "conn_ok cn' \<and> env_ok e'"
  using assms(5)
proof (elim disjE)
  assume "left_packet m ro cn e = Inr (cn', e')"
  from left_packet_keeps[OF this assms(3,1,2)] show ?thesis using same_oracles_ok assms(2) by blast
next
  assume "right_packet m sy ro table cn e = Inr (go, table', cn', e')"
  from right_packet_keeps[OF this assms(4,1,2)] show ?thesis using same_oracles_ok assms(2) by blast
next
  assume "timers table cn e = Inr (table', cn', e')"
  from timers_keep[OF this assms(1)] show ?thesis using same_oracles_ok assms(2) by blast
qed

lemma conn_with_ok: "conn_ok (conn_with t v)"
  by (simp add: conn_ok_def conn_with_node(3) empty_queue_inv packets_ok_def chain_at_node_def chain_ok_def nodes_ok_def
      in_chain_def table_ok_def blink_ready_def conn_with_def open_conn_def zero_conn_def two_nodes_def MNGM_MAX_CONN_def)

definition ping_round :: round where
  "ping_round = \<lparr>ro_poll = 1, ro_revents = [POLLIN, 0, 0, 0, 0, 0, 0, 0, 0], ro_sent = Some ping,
     ro_received = None, ro_input = (\<lambda>_. None)\<rparr>"

lemma packet_work_keeps_witness:
  "left_packet idle_libm ping_round (conn_with LOSS (Fin 100)) idle_env =
     Inr (conn_with LOSS (Fin 100), packetDestroy ping idle_env) \<and>
   conn_ok (conn_with LOSS (Fin 100)) \<and> env_ok (packetDestroy ping idle_env)"
proof -
  let ?cn = "conn_with LOSS (Fin 100)"
  have "d_le (Fin 100) (minWireValue (with_value LOSS (Fin 100)) LOSS (pk_direction ping))"
    using fixed_values(1)[OF conn_with_node(4) is_double_100, of LOSS "pk_direction ping"] by simp
  then have "handlePacket idle_libm ?cn ping idle_env = Inr (?cn, idle_env)"
    using conn_with_node(1)[of LOSS "Fin 100"] by (auto simp: handlePacket_def mtu_verdict lossHandler_def Let_def)
  then have r: "left_packet idle_libm ping_round ?cn idle_env = Inr (?cn, packetDestroy ping idle_env)"
    by (simp add: left_packet_def ping_round_def)
  have "conn_ok ?cn \<and> env_ok (packetDestroy ping idle_env)"
  proof (rule packet_work_keeps[OF conn_with_ok idle_env_ok])
    show "packet_ok p" if "ro_sent ping_round = Some p" for p using that ping_ok by (simp add: ping_round_def)
    show "sy_ethbufsize small_system < 2 ^ 64" by (simp add: small_system_def)
  qed (rule disjI1[OF r])
  then show ?thesis using r by simp
qed

end
