(* ===== verification/Plugin_Spec.thy ===== *)
theory Plugin_Spec
  imports Conn_Inv
begin

text \<open>
  The contract of the entry points: a connection that is handed out is well-formed, a failed open
  leaves the nested connection closed, packets from the application are private copies, and closing
  frees everything but the nodes of the chain and the blink buffer.
\<close>

section \<open>Wire values leave the shape of the chain\<close>

definition only_nodes :: "markov \<Rightarrow> markov \<Rightarrow> bool" where
  "only_nodes mk mk' \<longleftrightarrow> (nodes_ok mk \<longrightarrow> nodes_ok mk') \<and> (\<exists>ns. mk' = mk\<lparr>mk_nodes := ns\<rparr>)"

lemma only_nodes_refl: "only_nodes mk mk"
  unfolding only_nodes_def by (metis markov.unfold_congs(1) markov.surjective markov.update_convs(1))

lemma only_nodes_trans: "only_nodes a b \<Longrightarrow> only_nodes b c \<Longrightarrow> only_nodes a c"
  by (auto simp: only_nodes_def)

lemma put_node_only: "put_node mk i node = Inr mk' \<Longrightarrow> only_nodes mk mk'"
  by (auto simp: put_node_def only_nodes_def nodes_ok_def rbind_eq_Inr deref_def wr_eq_Inr rd_eq_Inr
      split: option.splits dest!: set_update_subset_insert[THEN subsetD])

lemma set_wire_values_only: "set_wire_values tag both before s mk = Inr mk' \<Longrightarrow> only_nodes mk mk'"
proof (induction "length s" arbitrary: before s mk rule: less_induct)
  case less
  show ?case
  proof (cases "dropWhile is_blank s = []")
    case True
    then show ?thesis
      using less.prems by (subst (asm) set_wire_values.simps) (simp add: only_nodes_refl Let_def del: dropWhile_eq_Nil_conv)
  next
    case False
    obtain direction consumed s2 where rd: "read_direction (dropWhile is_blank s) = (direction, consumed, s2)"
      by (metis prod_cases3)
    let ?rest = "dropWhile (\<lambda>c. c \<noteq> CHR '' '') s2"
    obtain x where "x \<in> set s" "\<not> is_blank x" using False by (meson dropWhile_eq_Nil_conv)
    then have short: "length ?rest < length s" using rest_shorter[OF rd[symmetric]] by blast
    have run: "rbind (parseWireValueString (consumed @ rev (takeWhile is_blank s) @ before) (takeWhile (\<lambda>c. c \<noteq> CHR '' '') s2))
       (\<lambda>r. case r of
          None \<Rightarrow> set_wire_values tag both (rev (takeWhile (\<lambda>c. c \<noteq> CHR '' '') s2) @ consumed @ rev (takeWhile is_blank s) @ before) ?rest mk
        | Some (v, plus_v, algorithm, to_set_node) \<Rightarrow>
            if to_set_node < 0 \<or> mk_nodes_count mk \<le> to_set_node then Inr mk
            else rbind (get_node mk to_set_node) (\<lambda>node.
              rbind (put_node mk to_set_node (set_directions (if both then None else direction) tag v plus_v algorithm node)) (\<lambda>mk.
                set_wire_values tag both (rev (takeWhile (\<lambda>c. c \<noteq> CHR '' '') s2) @ consumed @ rev (takeWhile is_blank s) @ before) ?rest mk)))
       = Inr mk'"
      using less.prems False by (subst (asm) set_wire_values.simps) (simp add: rd Let_def del: dropWhile_eq_Nil_conv)
    then obtain r where p: "parseWireValueString (consumed @ rev (takeWhile is_blank s) @ before) (takeWhile (\<lambda>c. c \<noteq> CHR '' '') s2) = Inr r"
      by (auto simp: rbind_eq_Inr)
    show ?thesis
    proof (cases r)
      case None
      then show ?thesis using run p less.hyps[OF short] by simp
    next
      case (Some x)
      obtain v pl al nd where x: "x = (v, pl, al, nd)" by (metis prod_cases4)
      show ?thesis
      proof (cases "nd < 0 \<or> mk_nodes_count mk \<le> nd")
        case True
        then show ?thesis using run p Some x by (simp add: only_nodes_refl)
      next
        case False
        then obtain node mk1 where "put_node mk nd (set_directions (if both then None else direction) tag v pl al node) = Inr mk1"
          "set_wire_values tag both (rev (takeWhile (\<lambda>c. c \<noteq> CHR '' '') s2) @ consumed @ rev (takeWhile is_blank s) @ before) ?rest mk1 = Inr mk'"
          using run p Some x by (simp add: rbind_eq_Inr) blast
        then show ?thesis using less.hyps[OF short] put_node_only only_nodes_trans by blast
      qed
    qed
  qed
qed

lemma setWireValue_only: "setWireValue mk tag before s flags = Inr mk' \<Longrightarrow> only_nodes mk mk'"
  by (cases s) (auto simp: setWireValue_def only_nodes_refl dest: set_wire_values_only)

lemma set_wires_only: "set_wires opts mk = Inr mk' \<Longrightarrow> only_nodes mk mk'"
  unfolding set_wires_def
  by (erule each_keeps) (auto intro: setWireValue_only only_nodes_refl only_nodes_trans)

section \<open>Opening\<close>

definition wirefilter_options :: options where
  "wirefilter_options = \<lparr>op_rc = None, op_wire = (\<lambda>_. None), op_before = (\<lambda>_. []), op_nofifo = None,
     op_blink = None, op_blinkid = None, op_mgmt = None, op_mgmtmode = None, op_pidfile = None\<rparr>"

definition vde_url :: url_parser where
  "vde_url = \<lparr>up_nested = (\<lambda>u. u), up_options = (\<lambda>u. Some wirefilter_options)\<rparr>"

lemma and_thenE:
  assumes "and_then r k = Inr (x, e')"
  obtains ret cn e where "r = Inr (ret, cn, e)" "ret < 0" "give_up e = Inr (x, e')"
    | ret cn e where "r = Inr (ret, cn, e)" "\<not> ret < 0" "k cn e = Inr (x, e')"
proof -
  obtain ret cn e where r: "r = Inr (ret, cn, e)" "(if ret < 0 then give_up e else k cn e) = Inr (x, e')"
    using assms by (auto simp: and_then_def rbind_eq_Inr)
  show thesis
  proof (cases "ret < 0")
    case True
    then show thesis using r that(1) by simp
  next
    case False
    then show thesis using r that(2) by simp
  qed
qed

lemma give_up_none: "give_up e = Inr (x, e') \<Longrightarrow> x = None \<and> e_trace e' = e_trace e @ [VdeClose]"
  by (auto simp: give_up_def syscall_def)

lemma and_then_some:
  assumes "and_then r k = Inr (Some cn', e')"
  obtains ret cn e where "r = Inr (ret, cn, e)" "\<not> ret < 0" "k cn e = Inr (Some cn', e')"
  using assms by (rule and_thenE) (auto dest: give_up_none)

lemma and_then_eq_some:
  "and_then r k = Inr (Some cn', e') \<longleftrightarrow> (\<exists>ret cn e. r = Inr (ret, cn, e) \<and> \<not> ret < 0 \<and> k cn e = Inr (Some cn', e'))"
proof
  assume "and_then r k = Inr (Some cn', e')"
  then show "\<exists>ret cn e. r = Inr (ret, cn, e) \<and> \<not> ret < 0 \<and> k cn e = Inr (Some cn', e')" by (rule and_then_some) blast
next
  assume "\<exists>ret cn e. r = Inr (ret, cn, e) \<and> \<not> ret < 0 \<and> k cn e = Inr (Some cn', e')"
  then show "and_then r k = Inr (Some cn', e')" by (auto simp: and_then_def)
qed

lemma open_pipes_frame:
  assumes "open_pipes cn e = (ret, cn', e')"
  shows "cn' = cn\<lparr>cn_send_pipe := cn_send_pipe cn', cn_receive_pipe := cn_receive_pipe cn'\<rparr>"
  using assms by (auto simp: open_pipes_def open_pipe_def alloc_def syscall_def Let_def split: if_splits)

lemma open_pipes_oracles: "open_pipes cn e = (ret, cn', e') \<Longrightarrow> same_oracles e e'"
  by (auto simp: open_pipes_def open_pipe_def alloc_def syscall_def same_oracles_def Let_def split: if_splits)

lemma init_parts_ok:
  assumes "init_parts opts cn e = Inr (ret, cn', e')" "\<not> ret < 0" "cn_markov cn = zero_markov" "env_ok e"
  shows "queue_inv (cn_queue cn') \<and> queue_nodes (cn_queue cn') = {#} \<and>
    q_fifoness (cn_queue cn') = (if op_nofifo opts = None then FIFO else NO_FIFO) \<and>
    chain_at_node (cn_markov cn') \<and> mk_nodes_count (cn_markov cn') = 1 \<and>
    cn' = cn\<lparr>cn_queue := cn_queue cn', cn_markov := cn_markov cn'\<rparr>"
proof -
  let ?f = "if op_nofifo opts = None then FIFO else NO_FIFO"
  obtain r q e1 where q: "initQueue ?f (cn_queue cn) e = (r, q, e1)" by (metis prod_cases3)
  have r: "r = 0" using assms(1,2) q by (auto simp: init_parts_def initQueue_def syscall_def Let_def split: if_splits)
  have "same_oracles e e1" using q by (auto simp: initQueue_def syscall_def same_oracles_def Let_def split: if_splits)
  then have "env_ok e1" using same_oracles_ok assms(4) by blast
  then obtain mk e2 where m: "initMarkov (cn_markov cn) 1 0 100000000 e1 = Inr (0, mk, e2)" "chain_ok mk"
    "mk_nodes_count mk = 1" "mk_current_node mk = 0"
    using initMarkov_ok[of "cn_markov cn" e1 100000000] assms(3) by (auto simp: zero_markov_def)
  have "cn' = cn\<lparr>cn_queue := q, cn_markov := mk\<rparr>" using assms(1) q r m(1) by (simp add: init_parts_def)
  then show ?thesis
    using queue_inv_init[OF q[unfolded r]] m by (simp add: chain_at_node_def in_chain_def)
qed

lemma open_blink_ok:
  assumes "open_blink sy opts cn e = (ret, cn', e')" "\<not> ret < 0" "blink_ready cn" "\<And>s. op_blinkid opts = Some s \<Longrightarrow> NUL \<notin> set s"
  shows "blink_ready cn' \<and> cn' = cn\<lparr>cn_blink := cn_blink cn'\<rparr>"
proof (cases "op_blink opts")
  case None
  then show ?thesis using assms(1,3) by (simp add: open_blink_def)
next
  case (Some path)
  obtain r1 cn1 e1 where o: "openBlinkSocket cn path e = (r1, cn1, e1)" by (metis prod_cases3)
  obtain r2 cn2 e2 where b: "setBlinkId sy cn1 (op_blinkid opts) e1 = (r2, cn2, e2)" by (metis prod_cases3)
  have r: "\<not> r2 < 0" "cn' = cn2" using assms(1,2) Some o b by (auto simp: open_blink_def split: if_splits)
  let ?ident = "case op_blinkid opts of None \<Rightarrow> snprintf 7 (print_zero_padded 6 (sy_pid sy)) | Some s \<Rightarrow> s"
  have pid: "NUL \<notin> set (snprintf 7 (print_zero_padded 6 (sy_pid sy)))"
  proof -
    have "NUL \<notin> set (print_zero_padded 6 (sy_pid sy))"
      using digits_no_nul[of "nat \<bar>sy_pid sy\<bar>"] by (auto simp: print_zero_padded_def NUL_def Let_def)
    then show ?thesis unfolding snprintf_def by (meson in_set_takeD)
  qed
  have id: "NUL \<notin> set ?ident" using pid assms(4) by (cases "op_blinkid opts") simp_all
  have mem: "e_malloc e1 (e_mallocs e1)"
    using b r(1) by (auto simp: setBlinkId_def alloc_def Let_def split: if_splits)
  have same: "setBlinkId sy cn1 (op_blinkid opts) e1 = setBlinkId sy cn1 (Some ?ident) e1"
    by (simp add: setBlinkId_def split: option.splits)
  have "blink_ok ?ident (cn_blink cn2)" using set_blink_id[OF mem id, of sy cn1] b same by auto
  moreover have "cn2 = cn\<lparr>cn_blink := cn_blink cn2\<rparr>"
    using b o by (auto simp: setBlinkId_def openBlinkSocket_def alloc_def syscall_def Let_def split: if_splits)
  ultimately show ?thesis using r(2) by (auto simp: blink_ready_def)
qed

lemma createManagementSocket_frame:
  assumes "createManagementSocket cn name e = (ret, cn', e')"
  shows "cn' = cn\<lparr>cn_management := cn_management cn'\<rparr> \<and>
    mg_count (cn_management cn') = mg_count (cn_management cn) \<and>
    mg_connections (cn_management cn') = mg_connections (cn_management cn) \<and>
    mg_debug_level (cn_management cn') = mg_debug_level (cn_management cn)"
proof -
  obtain fd e1 where "syscall e = (fd, e1)" by fastforce
  moreover obtain ok e2 where "all_calls 3 e1 = (ok, e2)" by fastforce
  moreover obtain x e3 where "syscall e2 = (x, e3)" by fastforce
  moreover obtain y e4 where "syscall e3 = (y, e4)" by fastforce
  ultimately show ?thesis using assms by (auto simp: createManagementSocket_def Let_def split: if_splits)
qed

lemma open_management_frame:
  assumes "open_management opts cn e = Inr (ret, cn', e')" "mg_count (cn_management cn) = 0"
  shows "cn' = cn\<lparr>cn_management := cn_management cn'\<rparr> \<and> mg_count (cn_management cn') = 0 \<and>
    mg_connections (cn_management cn') = mg_connections (cn_management cn) \<and>
    mg_debug_level (cn_management cn') = mg_debug_level (cn_management cn)"
proof (cases "op_mgmt opts")
  case None
  then show ?thesis using assms by (auto simp: open_management_def)
next
  case (Some path)
  then have i: "initManagement (cn\<lparr>cn_management := (cn_management cn)\<lparr>mg_socket_fd := - 1\<rparr>\<rparr>) path (op_mgmtmode opts) e
    = Inr (ret, cn', e')"
    using assms(1) by (simp add: open_management_def Let_def)
  let ?cn = "\<lambda>m. cn\<lparr>cn_management := (cn_management cn)\<lparr>mg_socket_fd := - 1, mg_mode := m,
    mg_count := 0, mg_socket_name := path\<rparr>\<rparr>"
  obtain m where m: "(case op_mgmtmode opts of None \<Rightarrow> Inr None | Some s \<Rightarrow> sscanf_octal s) = Inr m"
    using i unfolding initManagement_def rbind_eq_Inr by blast
  obtain r cn1 e1 where c: "createManagementSocket (?cn (case m of None \<Rightarrow> 448 | Some m \<Rightarrow> m)) path e = (r, cn1, e1)"
    by (metis prod_cases3)
  have "cn1 = cn'" using i c by (simp add: initManagement_def m)
  with createManagementSocket_frame[OF c] show ?thesis by simp
qed

lemma init_limits_frame:
  "init_limits cn e = (ret, cn', e') \<Longrightarrow> conn_ok cn' = conn_ok cn \<and> cn_queue cn' = cn_queue cn \<and>
    cn_markov cn' = cn_markov cn \<and> cn_blink cn' = cn_blink cn \<and> cn_management cn' = cn_management cn"
  by (auto simp: init_limits_def syscall_def Let_def conn_ok_def table_ok_def blink_ready_def split: if_splits)

lemma only_nodes_chain: "only_nodes mk mk' \<Longrightarrow> chain_at_node mk \<Longrightarrow> chain_at_node mk'"
  by (auto simp: only_nodes_def chain_at_node_def chain_ok_def in_chain_def split: option.splits)

lemma zero_conn_parts:
  "cn_queue zero_conn = zero_queue" "cn_markov zero_conn = zero_markov" "blink_ready zero_conn" "table_ok zero_conn"
  "mg_count (cn_management zero_conn) = 0"
  by (simp_all add: zero_conn_def blink_ready_def table_ok_def MNGM_MAX_CONN_def)

lemma finish_open_some: "finish_open sy opts cn e = Inr (Some cn', e') \<Longrightarrow> cn' = cn"
  by (auto simp: finish_open_def dest: give_up_none split: prod.splits if_splits)

text \<open>What is handed out, for options that load no configuration file.\<close>

lemma open_rest_ok:
  assumes "open_rest depth sy opts cn e = Inr (Some cn', e')" "op_rc opts = None"
    and "\<And>s. op_blinkid opts = Some s \<Longrightarrow> NUL \<notin> set s"
    and "cn_blink cn = cn_blink zero_conn" "cn_management cn = cn_management zero_conn"
  shows "table_ok cn' \<and> clients_of cn' = [] \<and> blink_ready cn' \<and> cn_queue cn' = cn_queue cn \<and> cn_markov cn' = cn_markov cn"
proof -
  from assms(1) obtain r1 cn1 e1 r2 cn2 e2 r3 cn3 e3 r4 cn4 e4 where p1: "init_limits cn e = (r1, cn1, e1)"
    and p2: "open_blink sy opts cn1 e1 = (r2, cn2, e2)" "\<not> r2 < 0"
    and p3: "open_management opts cn2 e2 = Inr (r3, cn3, e3)"
    and p4: "load_rc depth sy opts cn3 e3 = Inr (r4, cn4, e4)" "finish_open sy opts cn4 e4 = Inr (Some cn', e')"
    unfolding open_rest_def and_then_eq_some sum.inject by (elim exE conjE) (rule that)
  have cn': "cn' = cn3" using p4 assms(2) finish_open_some by (simp add: load_rc_def)
  note f1 = init_limits_frame[OF p1]
  have b1: "blink_ready cn1" using f1 assms(4) zero_conn_parts(3) by (simp add: blink_ready_def)
  note f2 = open_blink_ok[OF p2 b1 assms(3)]
  have m2: "cn_queue cn2 = cn_queue cn" "cn_markov cn2 = cn_markov cn" "cn_management cn2 = cn_management zero_conn"
    using f1 assms(5) by (simp_all add: arg_cong[OF conjunct2[OF f2], of cn_queue] arg_cong[OF conjunct2[OF f2], of cn_markov]
      arg_cong[OF conjunct2[OF f2], of cn_management])
  have "mg_count (cn_management cn2) = 0" using m2 zero_conn_parts by simp
  note f3 = open_management_frame[OF p3 this]
  have m3: "cn_queue cn3 = cn_queue cn" "cn_markov cn3 = cn_markov cn" "cn_blink cn3 = cn_blink cn2"
    by (subst conjunct1[OF f3], simp add: m2)+
  have "table_ok cn3" using f3 m2(3) zero_conn_parts(4) by (simp add: table_ok_def Let_def)
  moreover have "clients_of cn3 = []" using f3 by (simp add: clients_of_def Let_def)
  moreover have "blink_ready cn3" using f2 m3(3) by (simp add: blink_ready_def)
  ultimately show ?thesis using m3 cn' by simp
qed

lemma build_conn_ok:
  assumes "build_conn depth sy opts e = Inr (Some cn, e')" "op_rc opts = None" "env_ok e"
    and "\<And>s. op_blinkid opts = Some s \<Longrightarrow> NUL \<notin> set s"
  shows "conn_ok cn \<and> clients_of cn = [] \<and> queue_nodes (cn_queue cn) = {#} \<and>
    q_fifoness (cn_queue cn) = (if op_nofifo opts = None then FIFO else NO_FIFO) \<and>
    mk_nodes_count (cn_markov cn) = 1"
proof -
  obtain ok e0 where al: "alloc e = (ok, e0)" by fastforce
  have "same_oracles e e0" using al by (auto simp: alloc_def Let_def same_oracles_def)
  then have e0: "env_ok e0" using same_oracles_ok assms(3) by blast
  have ok: "ok" using assms(1) al give_up_none[of e0 "Some cn" e'] by (simp add: build_conn_def split: if_splits)
  have "and_then (Inr (open_pipes zero_conn e0)) (\<lambda>cn e. and_then (init_parts opts cn e) (\<lambda>cn e.
    rbind (set_wires opts (cn_markov cn)) (\<lambda>mk. open_rest depth sy opts (cn\<lparr>cn_markov := mk\<rparr>) e))) = Inr (Some cn, e')"
    using assms(1) al ok by (simp add: build_conn_def)
  then obtain r1 cn1 e1 r2 cn2 e2 mk where p1: "open_pipes zero_conn e0 = (r1, cn1, e1)"
    and p2: "init_parts opts cn1 e1 = Inr (r2, cn2, e2)" "\<not> r2 < 0"
    and p3: "set_wires opts (cn_markov cn2) = Inr mk"
    and p4: "open_rest depth sy opts (cn2\<lparr>cn_markov := mk\<rparr>) e2 = Inr (Some cn, e')"
    unfolding and_then_eq_some rbind_eq_Inr sum.inject by (elim exE conjE) (rule that)
  note f1 = open_pipes_frame[OF p1]
  have m1: "cn_markov cn1 = zero_markov" "cn_blink cn1 = cn_blink zero_conn" "cn_management cn1 = cn_management zero_conn"
    by (subst f1, simp add: zero_conn_parts)+
  have "env_ok e1" using open_pipes_oracles[OF p1] e0 same_oracles_ok by blast
  note f2 = init_parts_ok[OF p2 m1(1) this]
  have m2: "cn_blink cn2 = cn_blink zero_conn" "cn_management cn2 = cn_management zero_conn"
    by (subst conjunct2[OF conjunct2[OF conjunct2[OF conjunct2[OF conjunct2[OF f2]]]]], simp add: m1)+
  note o3 = set_wires_only[OF p3]
  have "table_ok cn \<and> clients_of cn = [] \<and> blink_ready cn \<and> cn_queue cn = cn_queue cn2 \<and> cn_markov cn = mk"
    using open_rest_ok[OF p4 assms(2,4)] m2 by simp
  moreover have "chain_at_node mk" using only_nodes_chain[OF o3] f2 by blast
  moreover have "mk_nodes_count mk = 1" using o3 f2 by (auto simp: only_nodes_def)
  ultimately show ?thesis using f2 by (simp add: conn_ok_def packets_ok_def)
qed

text \<open>With every call answered, opening succeeds.\<close>

lemma init_parts_returns:
  assumes "cn_markov cn = zero_markov" "env_ok e"
  shows "\<exists>cn' e'. init_parts opts cn e = Inr (0, cn', e') \<and> same_oracles e e'"
proof -
  let ?f = "if op_nofifo opts = None then FIFO else NO_FIFO"
  have "0 \<le> e_ret e (e_calls e)" using assms(2) by (simp add: env_ok_def calls_ok_def)
  then obtain q e1 where q: "initQueue ?f (cn_queue cn) e = (0, q, e1)" "same_oracles e e1"
    by (simp add: initQueue_def syscall_def Let_def same_oracles_def)
  have "env_ok e1" using same_oracles_ok[OF q(2)] assms(2) by simp
  then obtain mk e2 where "initMarkov (cn_markov cn) 1 0 100000000 e1 = Inr (0, mk, e2)" "same_oracles e1 e2"
    using initMarkov_ok[of "cn_markov cn" e1 100000000] assms(1) by (auto simp: zero_markov_def)
  then show ?thesis using q same_oracles_trans by (auto simp: init_parts_def)
qed

lemma set_wires_none: "(\<And>t. op_wire opts t = None) \<Longrightarrow> set_wires opts mk = Inr mk"
  by (simp add: set_wires_def open_order_def setWireValue_def)

lemma build_conn_run:
  assumes "alloc e = (True, e0)" "open_pipes zero_conn e0 = (0, cn1, e1)" "init_parts opts cn1 e1 = Inr (0, cn2, e2)"
    and "set_wires opts (cn_markov cn2) = Inr mk"
  shows "build_conn depth sy opts e = open_rest depth sy opts (cn2\<lparr>cn_markov := mk\<rparr>) e2"
  using assms by (simp add: build_conn_def and_then_def)

lemma alloc_pair: "fst (alloc e) \<Longrightarrow> alloc e = (True, snd (alloc e))"
  by (cases "alloc e") simp

lemma open_default:
  "\<exists>cn e'. vde_wirefilter_open 1 sy vde_url ''vde'' idle_env = Inr (Some cn, e')"
proof -
  let ?e = "snd (syscall (emit (VdeOpen ''vde'') (seed sy idle_env)))"
  let ?begun = "snd (alloc ?e)"
  obtain cn1 e1 where p1: "open_pipes zero_conn ?begun = (0, cn1, e1)"
    by (simp add: open_pipes_def open_pipe_def alloc_def syscall_def Let_def seed_def idle_env_def)
  have so: "same_oracles idle_env ?begun" by (simp add: seed_def syscall_def alloc_def same_oracles_def Let_def)
  have s1: "same_oracles idle_env e1" using so open_pipes_oracles[OF p1] same_oracles_trans by blast
  have e1: "env_ok e1" using same_oracles_ok[OF s1] idle_env_ok by simp
  have "cn_markov cn1 = zero_markov" using arg_cong[OF open_pipes_frame[OF p1], of cn_markov] zero_conn_parts(2) by simp
  then obtain cn2 e2 where p2: "init_parts wirefilter_options cn1 e1 = Inr (0, cn2, e2)" "same_oracles e1 e2"
    using init_parts_returns e1 by blast
  have z: "e_ret e2 k = 0" for k using s1 p2(2) by (simp add: same_oracles_def idle_env_def)
  have "\<exists>cn e'. open_rest 1 sy wirefilter_options cn2 e2 = Inr (Some cn, e')"
    using z
    by (simp add: open_rest_def init_limits_def open_blink_def open_management_def load_rc_def finish_open_def
        save_pid_def start_thread_def wirefilter_options_def syscall_def and_then_def Let_def)
  moreover have "set_wires wirefilter_options (cn_markov cn2) = Inr (cn_markov cn2)"
    by (simp add: set_wires_none wirefilter_options_def)
  moreover have "fst (alloc ?e)" by (simp add: alloc_def Let_def syscall_def seed_def emit_def idle_env_def)
  then have "alloc ?e = (True, ?begun)" by (rule alloc_pair)
  ultimately have "\<exists>cn e'. build_conn 1 sy wirefilter_options ?e = Inr (Some cn, e')"
    using build_conn_run[OF _ p1 p2(1)] by simp
  then show ?thesis
    by (simp add: vde_wirefilter_open_def vde_url_def Let_def syscall_def seed_def idle_env_def)
qed

text \<open>A failure ends with the close of the nested connection.\<close>

definition nested_closed :: "env \<Rightarrow> bool" where
  "nested_closed e \<longleftrightarrow> (\<exists>evs. e_trace e = evs @ [VdeClose])"

lemma give_up_closed: "give_up e = Inr (x, e') \<Longrightarrow> nested_closed e'"
  using give_up_none by (simp add: nested_closed_def)

lemma and_then_closed:
  assumes "and_then r k = Inr (None, e')" "\<And>cn e. k cn e = Inr (None, e') \<Longrightarrow> nested_closed e'"
  shows "nested_closed e'"
  using assms(1) by (rule and_thenE) (auto intro: give_up_closed assms(2))

lemma finish_open_closed: "finish_open sy opts cn e = Inr (None, e') \<Longrightarrow> nested_closed e'"
  by (auto simp: finish_open_def dest: give_up_closed split: prod.splits if_splits)

lemma open_rest_closed: "open_rest depth sy opts cn e = Inr (None, e') \<Longrightarrow> nested_closed e'"
  unfolding open_rest_def by (elim and_then_closed finish_open_closed)

lemma build_conn_closed: "build_conn depth sy opts e = Inr (None, e') \<Longrightarrow> nested_closed e'"
  by (auto simp: build_conn_def rbind_eq_Inr split: prod.splits if_splits
      dest: give_up_closed open_rest_closed elim!: and_then_closed)

text \<open>The division by 1000 rounds a pause down.\<close>

lemma us_within:
  fixes t :: u64
  shows "unat (NS_TO_US t) * 1000 \<le> unat t \<and> unat t < (unat (NS_TO_US t) + 1) * 1000"
  by (simp add: NS_TO_US_def unat_div)

text \<open>What the steps of closing do to trace, blocks and oracles.\<close>

lemma syscall_eq: "syscall e = (e_ret e (e_calls e), e\<lparr>e_calls := Suc (e_calls e)\<rparr>)"
  by (simp add: syscall_def)

lemma emit_parts:
  "e_trace (emit ev e) = e_trace e @ [ev]" "e_live (emit ev e) = e_live e" "e_ret (emit ev e) = e_ret e"
  "e_calls (emit ev e) = e_calls e"
  by (simp_all add: emit_def)

lemma release_parts:
  "e_trace (release e) = e_trace e" "e_live (release e) = e_live e - 1" "e_ret (release e) = e_ret e"
  "e_calls (release e) = e_calls e"
  by (simp_all add: release_def)

lemma closeQueue_parts:
  "e_trace (closeQueue q e) = e_trace e @ [CloseFd (q_timerfd q)]"
  "e_live (closeQueue q e) = e_live e - of_bool (q_queue q \<noteq> None)"
  "e_ret (closeQueue q e) = e_ret e" "e_calls (closeQueue q e) = e_calls e"
  by (simp_all add: closeQueue_def emit_parts release_parts)

lemma closeMarkov_parts:
  "e_trace (closeMarkov mk e) = e_trace e @ [CloseFd (mk_timerfd mk)]"
  "e_live (closeMarkov mk e) = e_live e - of_bool (mk_nodes mk \<noteq> None) - of_bool (mk_adjacency mk \<noteq> None)"
  "e_ret (closeMarkov mk e) = e_ret e" "e_calls (closeMarkov mk e) = e_calls e"
  by (simp_all add: closeMarkov_def emit_parts release_parts Let_def)

lemmas closing = emit_parts release_parts closeQueue_parts closeMarkov_parts closeManagement_def closeBlink_def

section \<open>Properties\<close>

text \<open>C26: a connection opened without a configuration file is well-formed: an empty queue in the mode
  asked for, a chain of one node, no clients, a blink buffer with room for every message.\<close>

theorem open_wellformed:
  assumes "vde_wirefilter_open depth sy up url e = Inr (Some cn, e')" "env_ok e"
    and "up_options up url = Some opts" "op_rc opts = None" "\<And>s. op_blinkid opts = Some s \<Longrightarrow> NUL \<notin> set s"
  shows "conn_ok cn \<and> clients_of cn = [] \<and> queue_nodes (cn_queue cn) = {#} \<and>
    q_fifoness (cn_queue cn) = (if op_nofifo opts = None then FIFO else NO_FIFO) \<and>
    mk_nodes_count (cn_markov cn) = 1"
proof -
  let ?e1 = "emit (VdeOpen (up_nested up url)) (seed sy e)"
  have "build_conn depth sy opts (snd (syscall ?e1)) = Inr (Some cn, e')"
    using assms(1,3) by (auto simp: vde_wirefilter_open_def Let_def split: prod.splits if_splits)
  moreover have "same_oracles e (snd (syscall ?e1))"
    by (simp add: seed_def syscall_def same_oracles_def Let_def)
  ultimately show ?thesis
    using build_conn_ok[OF _ assms(4) _ assms(5)] same_oracles_ok assms(2) by blast
qed

lemma open_wellformed_witness:
  "\<exists>cn e'. vde_wirefilter_open 1 small_system vde_url ''vde'' idle_env = Inr (Some cn, e') \<and> conn_ok cn"
proof -
  obtain cn e' where "vde_wirefilter_open 1 small_system vde_url ''vde'' idle_env = Inr (Some cn, e')" using open_default by blast
  moreover have "up_options vde_url ''vde'' = Some wirefilter_options" "op_rc wirefilter_options = None"
    "op_blinkid wirefilter_options = None"
    by (simp_all add: vde_url_def wirefilter_options_def)
  ultimately show ?thesis using open_wellformed[of 1 small_system vde_url "''vde''" idle_env cn e'] idle_env_ok by simp
qed

text \<open>C27: when opening fails after the nested connection was opened, closing that connection is the last
  thing done. Neither the blocks allocated nor the descriptors opened so far are released.\<close>

theorem open_fails_closed:
  assumes "vde_wirefilter_open depth sy up url e = Inr (None, e')" "up_options up url = Some opts"
    and "0 \<le> e_ret e (e_calls e)"
  shows "\<exists>evs. e_trace e' = evs @ [VdeClose]"
proof -
  have "build_conn depth sy opts (snd (syscall (emit (VdeOpen (up_nested up url)) (seed sy e)))) = Inr (None, e')"
    using assms by (simp add: vde_wirefilter_open_def syscall_def seed_def emit_def Let_def)
  then show ?thesis using build_conn_closed by (simp add: nested_closed_def)
qed

lemma open_fails_closed_witness:
  "\<exists>e'. vde_wirefilter_open 1 small_system vde_url ''vde'' (idle_env\<lparr>e_malloc := \<lambda>_. False\<rparr>) = Inr (None, e') \<and>
    (\<exists>evs. e_trace e' = evs @ [VdeClose])"
proof -
  let ?e = "idle_env\<lparr>e_malloc := \<lambda>_. False\<rparr>"
  obtain e' where "vde_wirefilter_open 1 small_system vde_url ''vde'' ?e = Inr (None, e')"
    by (simp add: vde_wirefilter_open_def vde_url_def build_conn_def give_up_def alloc_def syscall_def seed_def emit_def
        idle_env_def Let_def)
  moreover have "up_options vde_url ''vde'' = Some wirefilter_options" "0 \<le> e_ret ?e (e_calls ?e)"
    by (simp_all add: vde_url_def idle_env_def)
  ultimately show ?thesis using open_fails_closed[of 1 small_system vde_url "''vde''" ?e] by blast
qed

text \<open>C31: a packet of the application goes into the send pipe as a private copy of its bytes, marked as
  going from left to right; above the speed limit the caller sleeps first, for the time that is
  left rounded down to microseconds, as long as that is less than 71 minutes.\<close>

theorem send_copies:
  assumes "env_ok e" "unat len \<le> length buf" "now_ns e = Inr (now, e1)"
    and "now < cn_speed_next cn LEFT_TO_RIGHT \<longrightarrow> unat (cn_speed_next cn LEFT_TO_RIGHT - now) < 2 ^ 32 * 1000"
  shows "\<exists>p e'. vde_wirefilter_send cn buf len flags e = Inr (0, Some p, e') \<and> packet_ok p \<and>
    pk_buf p = take (unat len) buf \<and> pk_direction p = LEFT_TO_RIGHT \<and> e_live e' = e_live e + 2 \<and>
    (if now < cn_speed_next cn LEFT_TO_RIGHT
     then \<exists>us. e_trace e' = e_trace e @ [SleepUs us] \<and>
       unat us * 1000 \<le> unat (cn_speed_next cn LEFT_TO_RIGHT - now) \<and>
       unat (cn_speed_next cn LEFT_TO_RIGHT - now) < (unat us + 1) * 1000
     else e_trace e' = e_trace e)"
proof -
  let ?wait = "cn_speed_next cn LEFT_TO_RIGHT - now" and ?p = "\<lparr>pk_buf = take (unat len) buf, pk_len = len,
    pk_flags = flags, pk_direction = LEFT_TO_RIGHT\<rparr>"
  have e1: "e1 = e\<lparr>e_reads := Suc (e_reads e)\<rparr>" using now_ns_ok[OF assms(1)] assms(3) by auto
  have mem: "e_malloc e k" "0 \<le> e_ret e k" for k using assms(1) by (simp_all add: env_ok_def memory_ok_def calls_ok_def)
  let ?e2 = "send_pause cn now e1"
  have e2: "e_malloc ?e2 k" "\<not> e_ret ?e2 k < 0" "e_live ?e2 = e_live e" for k
    using mem by (simp_all add: send_pause_def e1 emit_def not_less)
  have run: "vde_wirefilter_send cn buf len flags e =
    Inr (0, Some ?p, ?e2\<lparr>e_mallocs := Suc (Suc (e_mallocs ?e2)), e_live := e_live ?e2 + 2, e_calls := Suc (e_calls ?e2)\<rparr>)"
    using assms(2) e2 by (simp add: vde_wirefilter_send_def assms(3) alloc_def syscall_def Let_def)
  have us: "unat (ucast (NS_TO_US ?wait) :: u32) = unat (NS_TO_US ?wait)" if "now < cn_speed_next cn LEFT_TO_RIGHT"
  proof -
    have "unat (NS_TO_US ?wait) < 2 ^ 32" using assms(4) that us_within[of ?wait] by linarith
    then show ?thesis by (simp add: unsigned_ucast_eq unsigned_take_bit_eq take_bit_nat_eq_self)
  qed
  have tr: "e_trace ?e2 = e_trace e @ (if now < cn_speed_next cn LEFT_TO_RIGHT then [SleepUs (ucast (NS_TO_US ?wait))] else [])"
    by (simp add: send_pause_def e1 emit_def)
  have "packet_ok ?p" using assms(2) by (simp add: packet_ok_def)
  then show ?thesis
    unfolding run using e2(3) tr us us_within[of ?wait] by (simp split: if_splits)
qed

lemma send_copies_witness:
  "\<exists>p e'. vde_wirefilter_send (zero_conn\<lparr>cn_speed_next := \<lambda>_. 1700000000000500000\<rparr>) [1, 2, 3] 2 0 idle_env =
    Inr (0, Some p, e') \<and> pk_buf p = [1, 2]"
proof -
  let ?cn = "zero_conn\<lparr>cn_speed_next := \<lambda>_. 1700000000000500000\<rparr>"
  obtain now e1 where "now_ns idle_env = Inr (now, e1)" using now_ns_ok[OF idle_env_ok] by blast
  moreover have "now = 1700000000000000000"
    using calculation by (simp add: now_ns_def idle_env_def)
  ultimately show ?thesis using send_copies[OF idle_env_ok, of 2 "[1, 2, 3]" now e1 ?cn 0] by auto
qed

text \<open>Closing cancels the thread before anything else, closes every descriptor and removes the two
  socket files, closes the nested connection last and frees the two pipe arrays, the packet array,
  the array of nodes, the edges and the connection. The nodes with their names and the blink
  buffer are not among the blocks it frees, and no client is disconnected.\<close>

lemma close_releases:
  "\<exists>e'. vde_wirefilter_close cn e = (e_ret e (e_calls e), e') \<and>
    e_trace e' = e_trace e @ [CancelThread, CloseFd (fst (cn_send_pipe cn)), CloseFd (snd (cn_send_pipe cn)),
        CloseFd (fst (cn_receive_pipe cn)), CloseFd (snd (cn_receive_pipe cn)), CloseFd (cn_speed_timer cn),
        CloseFd (q_timerfd (cn_queue cn)), CloseFd (mk_timerfd (cn_markov cn))] @
      (if 0 < mg_socket_fd (cn_management cn)
       then [CloseFd (mg_socket_fd (cn_management cn)), RemoveFile (mg_socket_name (cn_management cn))] else []) @
      (if 0 < bl_socket_fd (cn_blink cn)
       then [CloseFd (bl_socket_fd (cn_blink cn)), RemoveFile (bl_path (cn_blink cn))] else []) @ [VdeClose] \<and>
    e_live e' = e_live e - 3 - of_bool (q_queue (cn_queue cn) \<noteq> None) - of_bool (mk_nodes (cn_markov cn) \<noteq> None) -
      of_bool (mk_adjacency (cn_markov cn) \<noteq> None)"
  by (cases "0 < mg_socket_fd (cn_management cn)"; cases "0 < bl_socket_fd (cn_blink cn)")
    (simp_all add: vde_wirefilter_close_def Let_def syscall_eq closing)

end
