(* ===== verification/Spec2Isabelle.thy ===== *)
theory Spec2Isabelle
  imports Queue_Spec Markov_Props Handlers_Spec Thread Pipe Clients_Spec Blink_Spec Wire_Order Commands_Spec
    Conn_Inv Plugin_Spec
begin

text \<open>
  A verification library for \<open>vdeplug_wirefilter\<close>, the plugin of VDE (Virtual Distributed Ethernet)
  that makes a good virtual wire bad: it loses, duplicates, delays, limits and corrupts the packets
  between an application (the left side) and a nested VDE connection (the right side).

  \<^bold>\<open>The program.\<close> \<open>libvdeplug_wirefilter.c\<close> holds the entry points the VDE library calls, the packet
  thread and the packet handlers; \<open>includes/\<close> holds the queue of delayed packets, the Markov chain
  of wire parameters with its parsers, the management socket with its commands, copies of packets
  and the time functions. Everything hangs on one structure, \<open>struct vde_wirefilter_conn\<close>. The
  packet thread owns it: it polls two pipes, three timers and the management sockets. The
  application writes packets into one pipe and reads them from the other, whose writes are paced by
  \<open>receive_lock\<close>.

  \<^bold>\<open>Foundations.\<close> \<open>Prelude\<close>: results of C functions, \<open>'a res\<close>, whose left side is the undefined or
  abnormal behaviour of the code (reads and writes outside a block, null and uninitialised values,
  conversions out of range, signed overflow, endless recursion); blocks of memory; loops over
  lists. \<open>Transitions\<close>: invariants and progress of transition systems, as locales. \<open>Double\<close>: the
  type \<open>double\<close> as IEEE 754 binary64. \<open>Rand48\<close>: \<open>drand48\<close>. \<open>Env\<close>: the environment - clock, memory,
  results of system calls (consumed in order), the random state and the trace of visible effects -
  and \<open>wf_time.c\<close>. \<open>Scan\<close> and \<open>Format\<close>: the conversions of \<open>sscanf\<close> and \<open>printf\<close> the code uses.

  \<^bold>\<open>Components\<close>, each a group of definitions with the names of the source:
  \<^item> \<open>Packet\<close>: \<open>wf_conn.c\<close> and the constants of \<open>wf_conn.h\<close>.
  \<^item> \<open>Queue\<close>: \<open>wf_queue.c\<close>, with the array as a block of cells and the two heap loops as recursions.
  \<^item> \<open>Wire\<close>, \<open>Wire_Parse\<close>, \<open>Markov\<close>: \<open>wf_markov.c\<close> - values of a node and how one is drawn; the
    parser of settings; the matrix of edges, resizing and the choice of the next node.
  \<^item> \<open>Conn\<close>: the connection structure and the output to clients; \<open>Handlers\<close>: the handlers,
    \<open>handlePacket\<close> and \<open>sendPacket\<close> of \<open>libvdeplug_wirefilter.c\<close>.
  \<^item> \<open>Mgmt\<close>, \<open>Dispatch\<close>, \<open>Clients\<close>: \<open>wf_management.c\<close> - the commands, their table and
    interpreter with configuration files, the socket and the table of clients.
  \<^item> \<open>Plugin\<close>: opening, closing, sending and receiving; \<open>Thread\<close>: one round of the packet thread.
  \<^item> \<open>Pipe\<close>: the hand-over of packets from the packet thread to the application as two step
    relations that interleave, with writes and reads that may fail and writes above \<open>PIPE_BUF\<close>
    bytes that may go in piece by piece.

  \<^bold>\<open>What is shown.\<close>
  \<^item> The queue (\<open>Queue_Heap\<close>, \<open>Queue_Props\<close>, \<open>Queue_Fifo\<close>, \<open>Queue_Spec\<close>): insertion and removal keep
    a heap and the byte counters; removal takes a least key; in FIFO mode the heap refines a list.
    Two views of a queue as a list are shown to agree: \<open>by_key\<close>, the used cells of the array sorted
    by their stamps, and \<open>queue_contents\<close>, what repeated removal returns.
    The contract is stated in \<open>Delay_Queue\<close> as the locales \<open>prio_queue\<close> and \<open>fifo_queue\<close>, which
    the queue interprets.
  \<^item> The parsers (\<open>Scan\<close>, \<open>Wire_Parse\<close>, \<open>Markov_Props\<close>): printed settings and edges are read back.
  \<^item> The chain (\<open>Markov_Props\<close>): balanced rows, resizing, the choice of the next node.
  \<^item> The handlers (\<open>Handlers_Props\<close>, \<open>Handlers_Spec\<close>, \<open>Blink_Spec\<close>): what is dropped, forwarded,
    duplicated, delayed and corrupted, the Gilbert model, the messages on the blink socket.
  \<^item> The wire as one queue (\<open>Wire_Order\<close>): what was sent followed by what waits is a list to which
    FIFO mode only appends what the buffer limit does not drop, and the queue timer sends exactly
    the packets at the front of the queue that are due at the times read.
  \<^item> The interleaving (\<open>Pipe\<close>): no byte is lost or reordered unless a write fails; frames arrive
    whole and in order as long as no read fails, and all of them when no write fails either; a
    failed write blocks the pipe; after a failed read, which releases the lock with the frame still
    in the pipe, two frames can be read as one (\<open>read_error_merges\<close>).
  \<^item> Management (\<open>Commands_Props\<close>, \<open>Commands_Spec\<close>, \<open>Clients_Props\<close>, \<open>Clients_Spec\<close>): which
    command a line is and what it does, what a configuration file amounts to, and that the table of
    clients and the poll slots stay in step.
  \<^item> The connection as a whole (\<open>Conn_Inv\<close>, \<open>Plugin_Spec\<close>): an invariant that opening establishes
    and that the work of the packet thread on packets and timers keeps; failed opens and closing.

  \<^bold>\<open>Parameters.\<close> Code that is not in the repository is an argument of the definitions: \<open>libm\<close> for
  \<open>log\<close> and \<open>sqrt\<close>, \<open>system\<close> for error texts, files, version, process id and buffer size,
  \<open>url_parser\<close> for the parameter parsing of the VDE library, the record \<open>round\<close> for what \<open>poll\<close> and
  the descriptors deliver in a round, and the oracles of \<open>env\<close>. Statements that need working calls
  assume \<open>env_ok\<close>: a clock between 1970 and 2262, memory, and calls that do not fail.

  \<^bold>\<open>Bounds.\<close> No definition has fuel. The counting loops \<open>while (drand48() < x) n++\<close> end at the
  largest \<open>int\<close>, where the code overflows; a configuration file that loads files is bounded by a
  depth (\<open>load\<close> is recursive in the code without bound), and depth 0 is the result \<open>Diverges\<close>. The
  loop of the packet thread is given by its round.

  \<^bold>\<open>Conventions.\<close> Where C leaves the order of evaluation open, operands are evaluated from left to
  right. Conversions of \<open>sscanf\<close>, \<open>atoi\<close> and of doubles that do not fit their type are abnormal
  results, as the standard leaves them undefined. \<open>mtuHandler\<close>, \<open>lossHandler\<close> and
  \<open>bufferSizeHandler\<close> return \<open>DROP\<close> (-1) and \<open>FORWARD\<close> through \<open>char\<close>; the model has them as
  integers, which assumes that \<open>char\<close> is signed, as it is on x86: where it is not, no comparison
  with \<open>DROP\<close> would ever hold. The \<open>write\<close> into the receive pipe under
  \<open>receive_lock\<close> is one event of the sequential model; \<open>Pipe\<close> refines it to steps.

  \<^bold>\<open>Not modelled.\<close> The log of \<open>wf_log.c\<close> (output to syslog only); the table \<open>vde_ops\<close> of entry
  points and the URL parameter tables (data for the VDE library); the build files. Data races
  between the entry points and the packet thread on \<open>speed_next\<close> are outside the sequential model.
\<close>

end
